theory Spec2Isabelle
  imports Complex_Main
begin

unbundle bit_operations_syntax

section \<open>Errors\<close>

text \<open>
  The source is Python over numpy arrays. A store or a load outside an array,
  or a boolean mask that does not fit its array, is an \<open>IndexError\<close>; a
  division by zero is a \<open>ZeroDivisionError\<close>; an operation on two arrays whose
  shapes do not fit is a \<open>ValueError\<close>. Every
  function of the model that can meet one returns a sum, \<open>Inl\<close> the error.
  Quantities that are \<open>float64\<close> in the source are real numbers here, the
  integers (\<open>int64\<close> grid coordinates, parcel ids, times in seconds, flags)
  are unbounded integers.
\<close>

datatype error = IndexError | ZeroDivisionError | ValueError

section \<open>Grid rasterizer: \<open>line\<close>\<close>

type_synonym cell = "int \<times> int"

text \<open>
  \<open>points = np.empty(shape=(40,2))\<close>: a buffer of 40 rows. The rows are not
  initialised by numpy; the model fills them with a fixed cell, and only rows
  that have been stored are ever returned.
\<close>

definition points0 :: "cell list" where
  "points0 = replicate 40 (0, 0)"

text \<open>
  The loop of the branch \<open>dx > dy\<close>:
  \<^verbatim>\<open>while x != x1: points[i] = (x,y); i += 1; err -= dy2;
                  if err < 0: y += sy; err += dx2
                  x += sx\<close>
  The store at row \<open>i\<close> fails outside the buffer.
\<close>

function loop_x ::
  "int \<Rightarrow> int \<Rightarrow> int \<Rightarrow> int \<Rightarrow> int \<Rightarrow> int \<Rightarrow> int \<Rightarrow> int \<Rightarrow> nat \<Rightarrow> cell list
     \<Rightarrow> error + nat \<times> cell list" where
  "loop_x x1 dx2 dy2 sx sy x y err i points =
     (if x \<noteq> x1 then
        (if i < length points then
           (if err - dy2 < 0
            then loop_x x1 dx2 dy2 sx sy (x + sx) (y + sy) (err - dy2 + dx2) (Suc i)
                   (points[i := (x, y)])
            else loop_x x1 dx2 dy2 sx sy (x + sx) y (err - dy2) (Suc i)
                   (points[i := (x, y)]))
         else Inl IndexError)
      else Inr (i, points))"
  by pat_completeness auto
termination
  by (relation "measure (\<lambda>(x1, dx2, dy2, sx, sy, x, y, err, i, points). length points - i)")
    auto

declare loop_x.simps [simp del]

text \<open>The loop of the other branch, stepping in \<open>y\<close>.\<close>

function loop_y ::
  "int \<Rightarrow> int \<Rightarrow> int \<Rightarrow> int \<Rightarrow> int \<Rightarrow> int \<Rightarrow> int \<Rightarrow> int \<Rightarrow> nat \<Rightarrow> cell list
     \<Rightarrow> error + nat \<times> cell list" where
  "loop_y y1 dx2 dy2 sx sy x y err i points =
     (if y \<noteq> y1 then
        (if i < length points then
           (if err - dx2 < 0
            then loop_y y1 dx2 dy2 sx sy (x + sx) (y + sy) (err - dx2 + dy2) (Suc i)
                   (points[i := (x, y)])
            else loop_y y1 dx2 dy2 sx sy x (y + sy) (err - dx2) (Suc i)
                   (points[i := (x, y)]))
         else Inl IndexError)
      else Inr (i, points))"
  by pat_completeness auto
termination
  by (relation "measure (\<lambda>(y1, dx2, dy2, sx, sy, x, y, err, i, points). length points - i)")
    auto

declare loop_y.simps [simp del]

text \<open>
  \<open>line(x0, y0, x1, y1)\<close>: the single cell when the two ends are the same,
  else one of the two loops, the last cell stored after it, and the rows
  \<open>points[:i+1]\<close> returned.
\<close>

definition line :: "int \<Rightarrow> int \<Rightarrow> int \<Rightarrow> int \<Rightarrow> error + cell list" where
  "line x0 y0 x1 y1 =
     (if x0 = x1 \<and> y0 = y1 then Inr (take 1 (points0[0 := (x0, y0)]))
      else
        (let dx = \<bar>x1 - x0\<bar>; dy = \<bar>y1 - y0\<bar>;
             dx2 = 2 * dx; dy2 = 2 * dy;
             sx = (if x0 < x1 then 1 else - 1);
             sy = (if y0 < y1 then 1 else - 1)
         in case (if dx > dy then loop_x x1 dx2 dy2 sx sy x0 y0 dx 0 points0
                  else loop_y y1 dx2 dy2 sx sy x0 y0 dy 0 points0) of
              Inl e \<Rightarrow> Inl e
            | Inr (i, points) \<Rightarrow>
                if i < length points then Inr (take (Suc i) (points[i := (x1, y1)]))
                else Inl IndexError))"

text \<open>
  What the two loops store, as lists: \<open>walk_x \<dots> n x y err\<close> are the cells that
  \<open>n\<close> iterations of the first loop store from the state \<open>(x, y, err)\<close>, and
  \<open>walk_y\<close> those of the second. \<open>path_cells\<close> is the path they make with the
  last cell, the value of \<open>line\<close> when the buffer is long enough.
\<close>

fun walk_x :: "int \<Rightarrow> int \<Rightarrow> int \<Rightarrow> int \<Rightarrow> nat \<Rightarrow> int \<Rightarrow> int \<Rightarrow> int \<Rightarrow> cell list" where
  "walk_x dx2 dy2 sx sy 0 x y err = []"
| "walk_x dx2 dy2 sx sy (Suc n) x y err =
     (x, y) # (if err - dy2 < 0 then walk_x dx2 dy2 sx sy n (x + sx) (y + sy) (err - dy2 + dx2)
               else walk_x dx2 dy2 sx sy n (x + sx) y (err - dy2))"

fun walk_y :: "int \<Rightarrow> int \<Rightarrow> int \<Rightarrow> int \<Rightarrow> nat \<Rightarrow> int \<Rightarrow> int \<Rightarrow> int \<Rightarrow> cell list" where
  "walk_y dx2 dy2 sx sy 0 x y err = []"
| "walk_y dx2 dy2 sx sy (Suc n) x y err =
     (x, y) # (if err - dx2 < 0 then walk_y dx2 dy2 sx sy n (x + sx) (y + sy) (err - dx2 + dy2)
               else walk_y dx2 dy2 sx sy n x (y + sy) (err - dx2))"

definition path_cells :: "int \<Rightarrow> int \<Rightarrow> int \<Rightarrow> int \<Rightarrow> cell list" where
  "path_cells x0 y0 x1 y1 =
     (if x0 = x1 \<and> y0 = y1 then [(x0, y0)]
      else if \<bar>x1 - x0\<bar> > \<bar>y1 - y0\<bar>
      then walk_x (2 * \<bar>x1 - x0\<bar>) (2 * \<bar>y1 - y0\<bar>) (if x0 < x1 then 1 else - 1)
             (if y0 < y1 then 1 else - 1) (nat \<bar>x1 - x0\<bar>) x0 y0 \<bar>x1 - x0\<bar> @ [(x1, y1)]
      else walk_y (2 * \<bar>x1 - x0\<bar>) (2 * \<bar>y1 - y0\<bar>) (if x0 < x1 then 1 else - 1)
             (if y0 < y1 then 1 else - 1) (nat \<bar>y1 - y0\<bar>) x0 y0 \<bar>y1 - y0\<bar> @ [(x1, y1)])"




section \<open>Flags and the parcel table\<close>

definition I_DEAD :: int where "I_DEAD = 0x200000"
definition I_HIT :: int where "I_HIT = 0x400000"
definition I_OLD :: int where "I_OLD = 0x800000"
definition I_CROSSED :: int where "I_CROSSED = 0x2000000"
definition I_DBORNE :: int where "I_DBORNE = 0x1000000"
definition I_STOP :: int where "I_STOP = I_HIT + I_DEAD"

definition lowpcut :: real where "lowpcut = 3000"
definition highpcut :: real where "highpcut = 50000"

text \<open>
  One slot of the milestone archive: the entries \<open>[k, i0]\<close> of the five arrays
  \<open>prod0['src']['x'|'y'|'p'|'t'|'age']\<close> (\<open>xc, yc, pc, tc, age\<close> in the
  handlers), which every handler stores together. The arrays are created full
  of NaN; a slot that was never stored is \<open>None\<close>.
\<close>

record milestone =
  src_x :: real
  src_y :: real
  src_p :: real
  src_t :: real
  src_age :: real

text \<open>
  The per-parcel arrays \<open>flag_source\<close>, \<open>chi\<close>, \<open>passed\<close>, the six rows of the
  milestone arrays and \<open>part0\<close>'s \<open>ir_start, x, y, p, t\<close> all have \<open>numpart\<close>
  columns. The model keeps them as one table with a row per parcel; column
  \<open>i0\<close> of the arrays is row \<open>i0\<close> of the table. The six rows of the milestone
  arrays are addressed by the literals 0 to 5 only, so \<open>src\<close> is a function of
  the slot number.
\<close>

record parcel =
  flag :: int
  chi :: real
  passed :: int
  src :: "nat \<Rightarrow> milestone option"
  ir_start :: int
  part0_x :: real
  part0_y :: real
  part0_p :: real
  part0_t :: real

text \<open>
  \<open>prod0\<close> as the handlers see it: the parcel table, the grid \<open>source\<close>
  (rows are latitudes) and the regional vector \<open>pl\<close>.
\<close>

record tables =
  parcels :: "parcel list"
  source :: "real list list"
  pl :: "real list"

text \<open>
  An index into an array of \<open>n\<close> entries, as numpy resolves it: a negative
  index counts from the end, anything else out of range is an error.
\<close>

definition resolve :: "nat \<Rightarrow> int \<Rightarrow> nat option" where
  "resolve n i =
     (if 0 \<le> i \<and> i < int n then Some (nat i)
      else if - int n \<le> i \<and> i < 0 then Some (nat (i + int n))
      else None)"

text \<open>A \<open>for\<close> loop over a list whose body may raise.\<close>

fun for_each :: "('a \<Rightarrow> 's \<Rightarrow> error + 's) \<Rightarrow> 'a list \<Rightarrow> 's \<Rightarrow> error + 's" where
  "for_each body [] s = Inr s"
| "for_each body (a # as) s =
     (case body a s of Inl e \<Rightarrow> Inl e | Inr s' \<Rightarrow> for_each body as s')"

text \<open>
  A row of a trajectory snapshot, or of the arrays \<open>x, y, p, t, idx_back\<close>
  handed to \<open>exiter\<close> and \<open>radada\<close>.
\<close>

record part =
  row_idx_back :: int
  row_x :: real
  row_y :: real
  row_p :: real
  row_t :: real

definition archive :: "nat \<Rightarrow> real \<Rightarrow> real \<Rightarrow> real \<Rightarrow> real \<Rightarrow> real \<Rightarrow> parcel \<Rightarrow> parcel" where
  "archive k vx vy vp vt vage q =
     q\<lparr>src := (src q)(k \<mapsto> \<lparr>src_x = vx, src_y = vy, src_p = vp, src_t = vt, src_age = vage\<rparr>)\<rparr>"

section \<open>Termination handlers\<close>

text \<open>
  The domain \<open>rr = [[x_lo, x_hi], [y_lo, y_hi]]\<close> and the exit code of
  \<open>exiter\<close>, the tests in the order of the source.
\<close>

type_synonym box = "(real \<times> real) \<times> (real \<times> real)"

definition excode :: "box \<Rightarrow> part \<Rightarrow> int" where
  "excode rr a =
     (if row_y a < fst (snd rr) + 4 then 6
      else if row_x a < fst (fst rr) + 4 then 3
      else if row_y a > snd (snd rr) - 4 then 4
      else if row_x a > snd (fst rr) - 4 then 5
      else if row_p a > highpcut - 150 then 1
      else if row_p a < lowpcut + 15 then 2
      else 7)"

text \<open>
  The body of the loop of \<open>exiter\<close> for one row, on the parcel table and the
  count \<open>nexits\<close>. \<open>orgn\<close> is the global \<open>IDX_ORGN\<close>.
\<close>

definition exiter_one ::
  "int \<Rightarrow> int \<Rightarrow> box \<Rightarrow> part \<Rightarrow> parcel list \<times> int \<Rightarrow> error + parcel list \<times> int" where
  "exiter_one orgn itime rr a = (\<lambda>(ps, nexits).
     case resolve (length ps) (row_idx_back a - orgn) of
       None \<Rightarrow> Inl IndexError
     | Some i0 \<Rightarrow>
         if flag (ps ! i0) AND I_DEAD = 0
         then Inr (ps[i0 :=
                (archive 0 (row_x a) (row_y a) (row_p a) (row_t a)
                   (real_of_int (ir_start (ps ! i0) - itime)) (ps ! i0))
                \<lparr>flag := flag (ps ! i0) OR (push_bit 13 (excode rr a) + I_DEAD + I_CROSSED)\<rparr>],
              nexits + 1)
         else Inr (ps, nexits))"

definition exiter ::
  "int \<Rightarrow> int \<Rightarrow> part list \<Rightarrow> box \<Rightarrow> parcel list \<Rightarrow> error + parcel list \<times> int" where
  "exiter orgn itime rows rr ps = for_each (exiter_one orgn itime rr) rows (ps, 0)"

definition radada_one ::
  "int \<Rightarrow> int \<Rightarrow> part \<Rightarrow> parcel list \<times> int \<Rightarrow> error + parcel list \<times> int" where
  "radada_one orgn itime a = (\<lambda>(ps, nexits).
     case resolve (length ps) (row_idx_back a - orgn) of
       None \<Rightarrow> Inl IndexError
     | Some i0 \<Rightarrow>
         if flag (ps ! i0) AND I_DEAD = 0
         then Inr (ps[i0 :=
                (archive 0 (row_x a) (row_y a) (row_p a) (row_t a)
                   (real_of_int (ir_start (ps ! i0) - itime)) (ps ! i0))
                \<lparr>flag := flag (ps ! i0) OR (push_bit 13 8 + I_DEAD + I_CROSSED)\<rparr>],
              nexits + 1)
         else Inr (ps, nexits))"

definition radada ::
  "int \<Rightarrow> int \<Rightarrow> part list \<Rightarrow> parcel list \<Rightarrow> error + parcel list \<times> int" where
  "radada orgn itime rows ps = for_each (radada_one orgn itime) rows (ps, 0)"

section \<open>The detrainment engine\<close>

text \<open>
  One live parcel of a time slice: the entries \<open>[i]\<close> of the arrays
  \<open>idx_back, xi, yi, pi, ti, hyb, xf, yf\<close> handed to \<open>detrainer\<close>.
\<close>

record slice_part =
  sl_idx_back :: int
  sl_xi :: real
  sl_yi :: real
  sl_pi :: real
  sl_ti :: real
  sl_hyb :: int
  sl_xf :: real
  sl_yf :: real

text \<open>
  The read-only arguments of \<open>detrainer\<close>: the field \<open>udr[level, lat, lon]\<close> and
  the region mask \<open>mask[lat, lon]\<close> (converted by \<open>int()\<close>), each a lookup that
  has no value outside its array, the grid origin and spacing, and the shift
  of the source grid.
\<close>

record reanalysis =
  udr :: "int \<Rightarrow> int \<Rightarrow> int \<Rightarrow> real option"
  mask :: "int \<Rightarrow> int \<Rightarrow> int option"
  Lo1 :: real
  La1 :: real
  dlo :: real
  dla :: real
  xshift :: int
  yshift :: int

text \<open>\<open>int(math.floor((v - origin)/d + 0.5))\<close>\<close>

definition to_grid :: "real \<Rightarrow> real \<Rightarrow> real \<Rightarrow> error + int" where
  "to_grid v origin d =
     (if d = 0 then Inl ZeroDivisionError else Inr \<lfloor>(v - origin) / d + 1 / 2\<rfloor>)"

text \<open>\<open>int(0.5 * n)\<close> for an integer \<open>n\<close>: \<open>int()\<close> rounds towards zero.\<close>

definition int_half :: "int \<Rightarrow> int" where
  "int_half n = (if 0 \<le> n then n div 2 else - ((- n) div 2))"

text \<open>\<open>for j in range(len(ll)): detr += udr[hyb[i], ll[j][1], ll[j][0]]\<close>\<close>

fun sum_udr :: "(int \<Rightarrow> int \<Rightarrow> int \<Rightarrow> real option) \<Rightarrow> int \<Rightarrow> cell list \<Rightarrow> real \<Rightarrow> error + real" where
  "sum_udr u h [] detr = Inr detr"
| "sum_udr u h (c # cs) detr =
     (case u h (snd c) (fst c) of
        None \<Rightarrow> Inl IndexError
      | Some v \<Rightarrow> sum_udr u h cs (detr + v))"

text \<open>\<open>source[ym, xm] += d\<close>\<close>

definition add_cell :: "real list list \<Rightarrow> int \<Rightarrow> int \<Rightarrow> real \<Rightarrow> error + real list list" where
  "add_cell grid ym xm d =
     (case resolve (length grid) ym of
        None \<Rightarrow> Inl IndexError
      | Some r \<Rightarrow>
          (case resolve (length (grid ! r)) xm of
             None \<Rightarrow> Inl IndexError
           | Some c \<Rightarrow> Inr (grid[r := (grid ! r)[c := grid ! r ! c + d]])))"

text \<open>
  The ratchet. Slot \<open>k\<close> receives the start point of the slice and the age
  \<open>ir_start[i0] - itime\<close>; the first rung also sets \<open>I_HIT\<close>. The five tests
  follow one another as in the source, each on the value of \<open>passed\<close> that the
  one before has left.
\<close>

definition archive_rung :: "nat \<Rightarrow> int \<Rightarrow> slice_part \<Rightarrow> parcel \<Rightarrow> parcel" where
  "archive_rung k itime a q =
     archive k (sl_xi a) (sl_yi a) (sl_pi a) (sl_ti a) (real_of_int (ir_start q - itime)) q"

definition rung1 :: "int \<Rightarrow> slice_part \<Rightarrow> parcel \<times> int list \<Rightarrow> parcel \<times> int list" where
  "rung1 itime a = (\<lambda>(q, nhits).
     if passed q = 10 then
       (if chi q < 9 / 10
        then ((archive_rung 1 itime a q)\<lparr>flag := flag q OR I_HIT, passed := 9\<rparr>,
              nhits[1 := nhits ! 1 + 1])
        else (q, nhits))
     else (q, nhits))"

definition rung ::
  "nat \<Rightarrow> int \<Rightarrow> real \<Rightarrow> int \<Rightarrow> int \<Rightarrow> slice_part \<Rightarrow> parcel \<times> int list \<Rightarrow> parcel \<times> int list" where
  "rung k from thr to itime a = (\<lambda>(q, nhits).
     if passed q = from then
       (if chi q < thr
        then ((archive_rung k itime a q)\<lparr>passed := to\<rparr>, nhits[k := nhits ! k + 1])
        else (q, nhits))
     else (q, nhits))"

definition ratchet :: "int \<Rightarrow> slice_part \<Rightarrow> parcel \<times> int list \<Rightarrow> parcel \<times> int list" where
  "ratchet itime a = (\<lambda>(q, nhits).
     if passed q > 1 then
       rung 5 3 (1 / 10) 1 itime a
         (rung 4 5 (3 / 10) 3 itime a
           (rung 3 7 (5 / 10) 5 itime a
             (rung 2 9 (7 / 10) 7 itime a
               (rung1 itime a (q, nhits)))))
     else (q, nhits))"

text \<open>
  \<open>min(n-1, max(0, int(0.5*(ig+fg)) + shift))\<close>: the column (or row) of the
  midpoint of the path in \<open>source\<close>.
\<close>

definition midpoint :: "nat \<Rightarrow> int \<Rightarrow> int \<Rightarrow> int \<Rightarrow> int" where
  "midpoint n ig fg shift = min (int n - 1) (max 0 (int_half (ig + fg) + shift))"

text \<open>
  The erosion of one parcel once \<open>detr \<ge> detr_offset\<close>: the new \<open>chi\<close>, the
  deposit at the midpoint cell of \<open>source\<close> and in the region of that cell,
  then the ratchet.
\<close>

definition erode ::
  "int \<Rightarrow> reanalysis \<Rightarrow> nat \<Rightarrow> nat \<Rightarrow> slice_part \<Rightarrow> nat \<Rightarrow> int \<Rightarrow> int \<Rightarrow> int \<Rightarrow> int \<Rightarrow> real
     \<Rightarrow> tables \<times> int list \<Rightarrow> error + tables \<times> int list" where
  "erode itime g nlat nlon a i0 xig yig xfg yfg detr = (\<lambda>(s, nhits).
     let q = parcels s ! i0;
         newchi = chi q * exp (- 3600 * detr);
         xm = midpoint nlon xig xfg (xshift g);
         ym = midpoint nlat yig yfg (yshift g)
     in case add_cell (source s) ym xm (chi q - newchi) of
          Inl e \<Rightarrow> Inl e
        | Inr source' \<Rightarrow>
            (case mask g ym xm of
               None \<Rightarrow> Inl IndexError
             | Some code \<Rightarrow>
                 (case resolve (length (pl s)) code of
                    None \<Rightarrow> Inl IndexError
                  | Some r \<Rightarrow>
                      (case ratchet itime a (q\<lparr>chi := newchi\<rparr>, nhits) of
                         (q', nhits') \<Rightarrow>
                           Inr (s\<lparr>parcels := (parcels s)[i0 := q'],
                                  source := source',
                                  pl := (pl s)[r := pl s ! r + (chi q - newchi)]\<rparr>,
                                nhits')))))"

text \<open>
  The body of the loop of \<open>detrainer\<close> for one parcel of the slice. \<open>nlat\<close> and
  \<open>nlon\<close> are the dimensions of \<open>source\<close>, read before the loop.
\<close>

definition detrain_one ::
  "int \<Rightarrow> int \<Rightarrow> reanalysis \<Rightarrow> real \<Rightarrow> nat \<Rightarrow> nat \<Rightarrow> slice_part
     \<Rightarrow> tables \<times> int list \<Rightarrow> error + tables \<times> int list" where
  "detrain_one orgn itime g detr_offset nlat nlon a = (\<lambda>(s, nhits).
     case resolve (length (parcels s)) (sl_idx_back a - orgn) of
       None \<Rightarrow> Inl IndexError
     | Some i0 \<Rightarrow>
         if flag (parcels s ! i0) AND I_DEAD = 0 then
           (case to_grid (sl_xi a) (Lo1 g) (dlo g) of Inl e \<Rightarrow> Inl e | Inr xig \<Rightarrow>
            case to_grid (sl_yi a) (La1 g) (dla g) of Inl e \<Rightarrow> Inl e | Inr yig \<Rightarrow>
            case to_grid (sl_xf a) (Lo1 g) (dlo g) of Inl e \<Rightarrow> Inl e | Inr xfg \<Rightarrow>
            case to_grid (sl_yf a) (La1 g) (dla g) of Inl e \<Rightarrow> Inl e | Inr yfg \<Rightarrow>
            case line xig yig xfg yfg of Inl e \<Rightarrow> Inl e | Inr ll \<Rightarrow>
            case sum_udr (udr g) (sl_hyb a) ll 0 of Inl e \<Rightarrow> Inl e | Inr detr_sum \<Rightarrow>
              if detr_sum / real (length ll) \<ge> detr_offset
              then erode itime g nlat nlon a i0 xig yig xfg yfg (detr_sum / real (length ll)) (s, nhits)
              else Inr (s, nhits))
         else Inr (s, nhits))"

definition detrainer ::
  "int \<Rightarrow> int \<Rightarrow> slice_part list \<Rightarrow> reanalysis \<Rightarrow> real \<Rightarrow> tables \<Rightarrow> error + tables \<times> int list" where
  "detrainer orgn itime rows g detr_offset s =
     (case source s of
        [] \<Rightarrow> Inl IndexError
      | row0 # _ \<Rightarrow>
          for_each (detrain_one orgn itime g detr_offset (length (source s)) (length row0))
            rows (s, [0, 0, 0, 0, 0, 0]))"

section \<open>The sweeps of the run loop\<close>

text \<open>
  The age limit, once per output step, over the rows of the older snapshot
  \<open>partante\<close>. The source works on whole arrays: it first reads \<open>ir_start\<close> and
  the flags of every row (an index out of range raises before anything is
  stored), which gives the mask \<open>IIold_o\<close>, and then stores into the rows that
  the mask selects.
\<close>

definition IIold_o :: "int \<Rightarrow> real \<Rightarrow> int \<Rightarrow> parcel list \<Rightarrow> part \<Rightarrow> bool" where
  "IIold_o orgn age_bound itime ps a =
     (case resolve (length ps) (row_idx_back a - orgn) of
        None \<Rightarrow> False
      | Some i0 \<Rightarrow>
          real_of_int (ir_start (ps ! i0) - itime) > (age_bound - 1 / 4) * 86400 \<and>
          flag (ps ! i0) AND I_STOP = 0)"

definition age_mark :: "int \<Rightarrow> part \<Rightarrow> parcel \<Rightarrow> parcel" where
  "age_mark itime a q =
     (archive 0 (row_x a) (row_y a) (row_p a) (row_t a)
        (real_of_int (ir_start q - itime) / 86400) q)
     \<lparr>flag := flag q OR (I_DEAD + I_OLD)\<rparr>"

definition age_one :: "int \<Rightarrow> int \<Rightarrow> part \<Rightarrow> parcel list \<Rightarrow> parcel list" where
  "age_one orgn itime a ps =
     (case resolve (length ps) (row_idx_back a - orgn) of
        None \<Rightarrow> ps
      | Some i0 \<Rightarrow> ps[i0 := age_mark itime a (ps ! i0)])"

definition age_sweep :: "int \<Rightarrow> real \<Rightarrow> int \<Rightarrow> part list \<Rightarrow> parcel list \<Rightarrow> error + parcel list" where
  "age_sweep orgn age_bound itime rows ps =
     (if list_ex (\<lambda>a. resolve (length ps) (row_idx_back a - orgn) = None) rows
      then Inl IndexError
      else Inr (fold (age_one orgn itime) (filter (IIold_o orgn age_bound itime ps) rows) ps))"

text \<open>
  The parcels born dead: the ids of \<open>np.arange(idx1, numpart_s + IDX_ORGN)\<close>
  that are not among \<open>idx_act\<close> are flagged and archived at their launch
  position with age 0.
\<close>

definition dborne_one :: "int \<Rightarrow> int \<Rightarrow> parcel list \<Rightarrow> parcel list" where
  "dborne_one orgn i ps =
     (case resolve (length ps) (i - orgn) of
        None \<Rightarrow> ps
      | Some i0 \<Rightarrow>
          ps[i0 :=
            (archive 0 (part0_x (ps ! i0)) (part0_y (ps ! i0)) (part0_p (ps ! i0))
               (part0_t (ps ! i0)) 0 (ps ! i0))
            \<lparr>flag := flag (ps ! i0) OR (I_DEAD + I_DBORNE)\<rparr>])"

definition deadborne :: "int \<Rightarrow> int \<Rightarrow> int \<Rightarrow> int list \<Rightarrow> parcel list \<Rightarrow> error + parcel list" where
  "deadborne orgn idx1 numpart_s idx_act ps =
     (let idx_deadborne = filter (\<lambda>i. i \<notin> set idx_act) [idx1 .. numpart_s + orgn - 1]
      in if list_ex (\<lambda>i. resolve (length ps) (i - orgn) = None) idx_deadborne
         then Inl IndexError
         else Inr (fold (dborne_one orgn) idx_deadborne ps))"

section \<open>The run\<close>

text \<open>
  \<open>main\<close> creates the tables from the launch table \<open>part0\<close> (which gives each
  parcel its flag, launch time and launch position): \<open>chi\<close> is 1, \<open>passed\<close> is
  10, the milestone slots are empty, \<open>source\<close> and \<open>pl\<close> are zero.
\<close>

definition prod0 :: "parcel list \<Rightarrow> nat \<Rightarrow> nat \<Rightarrow> nat \<Rightarrow> tables" where
  "prod0 part0 nlat nlon nreg =
     \<lparr>parcels = map (\<lambda>q. q\<lparr>chi := 1, passed := 10, src := (\<lambda>k. None)\<rparr>) part0,
      source = replicate nlat (replicate nlon 0),
      pl = replicate (nreg + 1) 0\<rparr>"

text \<open>The offset that \<open>main\<close> hands to \<open>detrainer\<close>: \<open>1/(100*3600.)\<close>.\<close>

definition main_detr_offset :: real where
  "main_detr_offset = 1 / (100 * 3600)"

text \<open>
  From then on \<open>main\<close> changes the tables only through the five operations
  below, with arguments read from the trajectory and reanalysis files. A run
  is a list of them, performed in order; it stops at the first error.
\<close>

datatype event =
    Deadborne int int "int list"
  | Exiter int "part list" box
  | Radada int "part list"
  | Detrainer int "slice_part list" reanalysis
  | AgeLimit real int "part list"

fun step :: "int \<Rightarrow> event \<Rightarrow> tables \<Rightarrow> error + tables" where
  "step orgn (Deadborne idx1 numpart_s idx_act) s =
     (case deadborne orgn idx1 numpart_s idx_act (parcels s) of
        Inl e \<Rightarrow> Inl e | Inr ps \<Rightarrow> Inr (s\<lparr>parcels := ps\<rparr>))"
| "step orgn (Exiter itime rows rr) s =
     (case exiter orgn itime rows rr (parcels s) of
        Inl e \<Rightarrow> Inl e | Inr (ps, nexits) \<Rightarrow> Inr (s\<lparr>parcels := ps\<rparr>))"
| "step orgn (Radada itime rows) s =
     (case radada orgn itime rows (parcels s) of
        Inl e \<Rightarrow> Inl e | Inr (ps, nr) \<Rightarrow> Inr (s\<lparr>parcels := ps\<rparr>))"
| "step orgn (Detrainer itime rows g) s =
     (case detrainer orgn itime rows g main_detr_offset s of
        Inl e \<Rightarrow> Inl e | Inr (s', nhits) \<Rightarrow> Inr s')"
| "step orgn (AgeLimit age_bound itime rows) s =
     (case age_sweep orgn age_bound itime rows (parcels s) of
        Inl e \<Rightarrow> Inl e | Inr ps \<Rightarrow> Inr (s\<lparr>parcels := ps\<rparr>))"

definition run :: "int \<Rightarrow> event list \<Rightarrow> tables \<Rightarrow> error + tables" where
  "run orgn evs s = for_each (step orgn) evs s"

section \<open>What a run keeps\<close>

text \<open>The values of the ratchet.\<close>

definition rungs :: "int set" where
  "rungs = {10, 9, 7, 5, 3, 1}"

text \<open>
  \<open>evolves q q'\<close>: a later state \<open>q'\<close> of a parcel against an earlier state \<open>q\<close>.
  No bit of the flag is cleared, \<open>chi\<close> stays positive and does not grow, the
  ratchet stays on its rungs and does not climb, the launch time is the same.
\<close>

definition evolves :: "parcel \<Rightarrow> parcel \<Rightarrow> bool" where
  "evolves q q' \<longleftrightarrow>
     flag q AND flag q' = flag q \<and>
     (0 < chi q \<longrightarrow> 0 < chi q' \<and> chi q' \<le> chi q) \<and>
     (passed q \<in> rungs \<longrightarrow> passed q' \<in> rungs \<and> passed q' \<le> passed q) \<and>
     ir_start q' = ir_start q"

text \<open>\<open>frozen q q'\<close>: if \<open>q\<close> is dead, \<open>q'\<close> is the same parcel state.\<close>

definition frozen :: "parcel \<Rightarrow> parcel \<Rightarrow> bool" where
  "frozen q q' \<longleftrightarrow> (flag q AND I_DEAD \<noteq> 0 \<longrightarrow> q' = q)"

text \<open>
  The sum of \<open>source\<close>, the sum of \<open>pl\<close>, and the sum over the parcels of what
  each has lost of its initial \<open>chi = 1\<close>.
\<close>

definition source_total :: "tables \<Rightarrow> real" where
  "source_total s = sum_list (map sum_list (source s))"

definition pl_total :: "tables \<Rightarrow> real" where
  "pl_total s = sum_list (pl s)"

definition chi_lost :: "tables \<Rightarrow> real" where
  "chi_lost s = sum_list (map (\<lambda>q. 1 - chi q) (parcels s))"

text \<open>
  \<open>balanced\<close>: the two accumulators hold what the parcels have lost.
  \<open>same_chi\<close>: a later parcel state with the \<open>chi\<close> of the earlier one.
  \<open>is_Detrainer\<close>: whether an event is a call of \<open>detrainer\<close>.
\<close>

definition balanced :: "tables \<Rightarrow> bool" where
  "balanced s \<longleftrightarrow> source_total s = chi_lost s \<and> pl_total s = chi_lost s"

definition same_chi :: "parcel \<Rightarrow> parcel \<Rightarrow> bool" where
  "same_chi q q' \<longleftrightarrow> chi q' = chi q"

definition is_Detrainer :: "event \<Rightarrow> bool" where
  "is_Detrainer ev = (case ev of Detrainer itime rows g \<Rightarrow> True | _ \<Rightarrow> False)"

section \<open>The ratchet, in the words of the specification\<close>

text \<open>
  ``While the parcel's ratchet state permits (strictly descending through
  \<open>{10,9,7,5,3,1}\<close>) and \<open>chi\<close> has dropped below the corresponding threshold
  in \<open>{0.9,0.7,0.5,0.3,0.1}\<close>, archive current \<open>(x,y,p,t,age)\<close> into the next
  milestone slot, decrement the ratchet state by one rung, and increment that
  rung's hit counter. The first rung crossing additionally sets the HIT flag
  bit.'' For a rung \<open>r\<close> above the last: the threshold that lets the parcel
  leave it, the rung below it, and the slot that is filled on leaving it.
\<close>

definition rung_threshold :: "int \<Rightarrow> real" where
  "rung_threshold r =
     (if r = 10 then 9 / 10 else if r = 9 then 7 / 10 else if r = 7 then 5 / 10
      else if r = 5 then 3 / 10 else 1 / 10)"

definition rung_below :: "int \<Rightarrow> int" where
  "rung_below r = (if r = 10 then 9 else if r = 9 then 7 else if r = 7 then 5
                   else if r = 5 then 3 else 1)"

definition rung_slot :: "int \<Rightarrow> nat" where
  "rung_slot r = (if r = 10 then 1 else if r = 9 then 2 else if r = 7 then 3
                  else if r = 5 then 4 else 5)"

function ratchet_spec :: "int \<Rightarrow> slice_part \<Rightarrow> parcel \<times> int list \<Rightarrow> parcel \<times> int list" where
  "ratchet_spec itime a (q, nhits) =
     (if passed q \<in> {10, 9, 7, 5, 3} \<and> chi q < rung_threshold (passed q)
      then ratchet_spec itime a
             ((archive_rung (rung_slot (passed q)) itime a q)
                \<lparr>flag := (if passed q = 10 then flag q OR I_HIT else flag q),
                 passed := rung_below (passed q)\<rparr>,
              nhits[rung_slot (passed q) := nhits ! rung_slot (passed q) + 1])
      else (q, nhits))"
  by pat_completeness auto
termination
  by (relation "measure (\<lambda>(itime, a, q, nhits). nat (passed q))")
    (auto simp: rung_below_def archive_rung_def)

declare ratchet_spec.simps [simp del]

section \<open>The time-slice generator\<close>

text \<open>
  A trajectory snapshot \<open>partStep[hour]\<close>: its arrays, one entry per active
  parcel, and the time \<open>itime\<close> of the output in seconds. Dates and time
  steps are whole seconds in the model.
\<close>

record snapshot =
  sn_idx_back :: "int list"
  sn_x :: "real list"
  sn_y :: "real list"
  sn_p :: "real list"
  sn_t :: "real list"
  sn_itime :: int

text \<open>
  The dictionary \<open>dat\<close> as it is when the generator yields it. \<open>ti\<close> and \<open>tf\<close>
  are \<open>None\<close> in the windows of an hour without live parcels; the keys
  \<open>tempi\<close> and \<open>tempf\<close> are never set in such an hour, which is \<open>None\<close> here.
\<close>

record window =
  w_ti :: "int option"
  w_tf :: "int option"
  w_itime :: int
  w_idx_back :: "int list"
  w_xi :: "real list"
  w_yi :: "real list"
  w_pi :: "real list"
  w_tempi :: "real list option"
  w_xf :: "real list"
  w_yf :: "real list"
  w_pf :: "real list"
  w_tempf :: "real list option"

definition dat0 :: window where
  "dat0 = \<lparr>w_ti = None, w_tf = None, w_itime = 0, w_idx_back = [],
           w_xi = [], w_yi = [], w_pi = [], w_tempi = None,
           w_xf = [], w_yf = [], w_pf = [], w_tempf = None\<rparr>"

text \<open>The arguments of \<open>get_slice_part\<close>.\<close>

record slice_args =
  part_a :: snapshot
  part_p :: snapshot
  live_a :: "bool list"
  live_p :: "bool list"
  current_date :: int
  dstep :: int
  slice_width :: int

definition and_then :: "error + 'a \<Rightarrow> ('a \<Rightarrow> error + 'b) \<Rightarrow> error + 'b" where
  "and_then m f = (case m of Inl e \<Rightarrow> Inl e | Inr v \<Rightarrow> f v)"

text \<open>\<open>xs[m]\<close> for a boolean array \<open>m\<close>: the entries of \<open>xs\<close> where \<open>m\<close> is true.\<close>

definition take_mask :: "'a list \<Rightarrow> bool list \<Rightarrow> error + 'a list" where
  "take_mask xs m =
     (if length m = length xs then Inr (map fst (filter snd (zip xs m))) else Inl IndexError)"

text \<open>
  \<open>ca*a + cp*p\<close> for two arrays: entry by entry when they are as long as one
  another, an array of one entry being stretched to the length of the other.
\<close>

definition lin :: "real \<Rightarrow> real list \<Rightarrow> real \<Rightarrow> real list \<Rightarrow> error + real list" where
  "lin ca a cp p =
     (if length a = length p then Inr (map2 (\<lambda>u v. ca * u + cp * v) a p)
      else if length a = 1 then Inr (map (\<lambda>v. ca * hd a + cp * v) p)
      else if length p = 1 then Inr (map (\<lambda>u. ca * u + cp * hd p) a)
      else Inl ValueError)"

text \<open>\<open>np.clip(xs, lo, hi)\<close>\<close>

definition clip :: "real list \<Rightarrow> real \<Rightarrow> real \<Rightarrow> real list" where
  "clip xs lo hi = map (\<lambda>v. min (max v lo) hi) xs"

text \<open>\<open>coefai*part_a[key][live_a] + coefpi*part_p[key][live_p]\<close>\<close>

definition interp ::
  "real \<Rightarrow> real list \<Rightarrow> bool list \<Rightarrow> real \<Rightarrow> real list \<Rightarrow> bool list \<Rightarrow> error + real list" where
  "interp coefai va la coefpi vp lp =
     and_then (take_mask va la) (\<lambda>a.
     and_then (take_mask vp lp) (\<lambda>p.
     lin coefai a coefpi p))"

text \<open>The four branches of the loop body, each on the dictionary \<open>dat\<close>.\<close>

definition empty_slice :: "window \<Rightarrow> window" where
  "empty_slice dat =
     dat\<lparr>w_idx_back := [], w_xi := [], w_yi := [], w_pi := [],
         w_xf := [], w_yf := [], w_pf := [], w_ti := None, w_tf := None\<rparr>"

definition first_slice :: "slice_args \<Rightarrow> real \<Rightarrow> real \<Rightarrow> window \<Rightarrow> error + window" where
  "first_slice g coefai coefpi dat =
     and_then (take_mask (sn_idx_back (part_a g)) (live_a g)) (\<lambda>idx.
     and_then (take_mask (sn_x (part_a g)) (live_a g)) (\<lambda>xa.
     and_then (take_mask (sn_y (part_a g)) (live_a g)) (\<lambda>ya.
     and_then (take_mask (sn_p (part_a g)) (live_a g)) (\<lambda>pa.
     and_then (take_mask (sn_t (part_a g)) (live_a g)) (\<lambda>tempa.
     and_then (interp coefai (sn_x (part_a g)) (live_a g) coefpi (sn_x (part_p g)) (live_p g)) (\<lambda>xi.
     and_then (interp coefai (sn_y (part_a g)) (live_a g) coefpi (sn_y (part_p g)) (live_p g)) (\<lambda>yi.
     and_then (interp coefai (sn_p (part_a g)) (live_a g) coefpi (sn_p (part_p g)) (live_p g)) (\<lambda>pi'.
     and_then (interp coefai (sn_t (part_a g)) (live_a g) coefpi (sn_t (part_p g)) (live_p g)) (\<lambda>tempi.
       Inr (dat\<lparr>w_idx_back := idx,
                w_xf := clip xa (- 10) 160, w_yf := clip ya 0 50, w_pf := pa, w_tempf := Some tempa,
                w_xi := clip xi (- 10) 160, w_yi := clip yi 0 50, w_pi := pi',
                w_tempi := Some tempi\<rparr>))))))))))"

definition last_slice :: "slice_args \<Rightarrow> window \<Rightarrow> error + window" where
  "last_slice g dat =
     and_then (take_mask (sn_x (part_p g)) (live_p g)) (\<lambda>xp.
     and_then (take_mask (sn_y (part_p g)) (live_p g)) (\<lambda>yp.
     and_then (take_mask (sn_p (part_p g)) (live_p g)) (\<lambda>pp.
     and_then (take_mask (sn_t (part_p g)) (live_p g)) (\<lambda>tempp.
       Inr (dat\<lparr>w_xf := w_xi dat, w_yf := w_yi dat, w_pf := w_pi dat, w_tempf := w_tempi dat,
                w_xi := clip xp (- 10) 160, w_yi := clip yp 0 50, w_pi := pp,
                w_tempi := Some tempp\<rparr>)))))"

definition inner_slice :: "slice_args \<Rightarrow> real \<Rightarrow> real \<Rightarrow> window \<Rightarrow> error + window" where
  "inner_slice g coefai coefpi dat =
     and_then (interp coefai (sn_x (part_a g)) (live_a g) coefpi (sn_x (part_p g)) (live_p g)) (\<lambda>xi.
     and_then (interp coefai (sn_y (part_a g)) (live_a g) coefpi (sn_y (part_p g)) (live_p g)) (\<lambda>yi.
     and_then (interp coefai (sn_p (part_a g)) (live_a g) coefpi (sn_p (part_p g)) (live_p g)) (\<lambda>pi'.
     and_then (interp coefai (sn_t (part_a g)) (live_a g) coefpi (sn_t (part_p g)) (live_p g)) (\<lambda>tempi.
       Inr (dat\<lparr>w_xf := w_xi dat, w_yf := w_yi dat, w_pf := w_pi dat, w_tempf := w_tempi dat,
                w_xi := clip xi (- 10) 160, w_yi := clip yi 0 50, w_pi := pi',
                w_tempi := Some tempi\<rparr>)))))"

text \<open>\<open>int(r)\<close> for a float \<open>r\<close>: rounding towards zero.\<close>

definition py_int :: "real \<Rightarrow> int" where
  "py_int r = (if 0 \<le> r then \<lfloor>r\<rfloor> else \<lceil>r\<rceil>)"

text \<open>
  The loop \<open>for i in range(nb_slices)\<close>, with \<open>n\<close> iterations left, and the list
  of the windows it yields. \<open>slice_width.seconds\<close> is the part of the width
  below one day.
\<close>

fun slices ::
  "slice_args \<Rightarrow> int \<Rightarrow> bool \<Rightarrow> nat \<Rightarrow> nat \<Rightarrow> int \<Rightarrow> int \<Rightarrow> window \<Rightarrow> error + window list" where
  "slices g nb_slices empty_live 0 i tf itime dat = Inr []"
| "slices g nb_slices empty_live (Suc n) i tf itime dat =
     (if dstep g = 0 then Inl ZeroDivisionError
      else
        (case
           (if empty_live
            then Inr (empty_slice
                   (dat\<lparr>w_ti := Some (tf - slice_width g), w_tf := Some tf,
                        w_itime := itime - slice_width g mod 86400\<rparr>))
            else if i = 0
            then first_slice g
                   (real_of_int (tf - slice_width g - current_date g) / real_of_int (dstep g))
                   (real_of_int (current_date g + dstep g - (tf - slice_width g)) / real_of_int (dstep g))
                   (dat\<lparr>w_ti := Some (tf - slice_width g), w_tf := Some tf,
                        w_itime := itime - slice_width g mod 86400\<rparr>)
            else if int i = nb_slices - 1
            then last_slice g
                   (dat\<lparr>w_ti := Some (tf - slice_width g), w_tf := Some tf,
                        w_itime := itime - slice_width g mod 86400\<rparr>)
            else inner_slice g
                   (real_of_int (tf - slice_width g - current_date g) / real_of_int (dstep g))
                   (real_of_int (current_date g + dstep g - (tf - slice_width g)) / real_of_int (dstep g))
                   (dat\<lparr>w_ti := Some (tf - slice_width g), w_tf := Some tf,
                        w_itime := itime - slice_width g mod 86400\<rparr>)) of
           Inl e \<Rightarrow> Inl e
         | Inr dat' \<Rightarrow>
             (case slices g nb_slices empty_live n (Suc i) (tf - slice_width g)
                     (itime - slice_width g mod 86400) dat' of
                Inl e \<Rightarrow> Inl e
              | Inr rest \<Rightarrow> Inr (dat' # rest))))"

text \<open>
  \<open>get_slice_part\<close>, as the list of the windows that the generator yields when
  it is run to its end.
\<close>

definition get_slice_part :: "slice_args \<Rightarrow> error + window list" where
  "get_slice_part g =
     (if slice_width g = 0 then Inl ZeroDivisionError
      else slices g (py_int (real_of_int (dstep g) / real_of_int (slice_width g) + 1 / 10000))
             (True \<notin> set (live_a g))
             (nat (py_int (real_of_int (dstep g) / real_of_int (slice_width g) + 1 / 10000)))
             0 (current_date g + dstep g) (sn_itime (part_p g)) dat0)"

text \<open>
  For the statements about the generator: the entries that a mask selects;
  arguments whose masks fit their arrays and select as many parcels from one
  snapshot as from the other (in \<open>main\<close> both masks select the live parcels
  that the two snapshots have in common); the two coefficients of the
  window \<open>k\<close>, counted from 0; and the window \<open>k\<close> of \<open>N\<close> itself.
\<close>

definition masked :: "'a list \<Rightarrow> bool list \<Rightarrow> 'a list" where
  "masked xs m = map fst (filter snd (zip xs m))"

definition well_shaped :: "slice_args \<Rightarrow> bool" where
  "well_shaped g \<longleftrightarrow>
     length (sn_idx_back (part_a g)) = length (live_a g) \<and>
     length (sn_x (part_a g)) = length (live_a g) \<and> length (sn_y (part_a g)) = length (live_a g) \<and>
     length (sn_p (part_a g)) = length (live_a g) \<and> length (sn_t (part_a g)) = length (live_a g) \<and>
     length (sn_x (part_p g)) = length (live_p g) \<and> length (sn_y (part_p g)) = length (live_p g) \<and>
     length (sn_p (part_p g)) = length (live_p g) \<and> length (sn_t (part_p g)) = length (live_p g) \<and>
     length (filter id (live_a g)) = length (filter id (live_p g))"

definition coefai :: "slice_args \<Rightarrow> nat \<Rightarrow> real" where
  "coefai g k =
     real_of_int (current_date g + dstep g - (int k + 1) * slice_width g - current_date g)
       / real_of_int (dstep g)"

definition coefpi :: "slice_args \<Rightarrow> nat \<Rightarrow> real" where
  "coefpi g k =
     real_of_int (current_date g + dstep g - (current_date g + dstep g - (int k + 1) * slice_width g))
       / real_of_int (dstep g)"

definition between :: "slice_args \<Rightarrow> nat \<Rightarrow> (snapshot \<Rightarrow> real list) \<Rightarrow> real list" where
  "between g k field =
     map2 (\<lambda>u v. coefai g k * u + coefpi g k * v)
       (masked (field (part_a g)) (live_a g)) (masked (field (part_p g)) (live_p g))"

definition start_of :: "slice_args \<Rightarrow> nat \<Rightarrow> nat \<Rightarrow> (snapshot \<Rightarrow> real list) \<Rightarrow> real list" where
  "start_of g N k field =
     (if k \<noteq> 0 \<and> int k = int N - 1 then masked (field (part_p g)) (live_p g)
      else between g k field)"

definition end_of :: "slice_args \<Rightarrow> nat \<Rightarrow> nat \<Rightarrow> (snapshot \<Rightarrow> real list) \<Rightarrow> real list" where
  "end_of g N k field =
     (if k = 0 then masked (field (part_a g)) (live_a g) else start_of g N (k - 1) field)"

definition window_at :: "slice_args \<Rightarrow> nat \<Rightarrow> nat \<Rightarrow> window" where
  "window_at g N k =
     \<lparr>w_ti = Some (current_date g + dstep g - (int k + 1) * slice_width g),
      w_tf = Some (current_date g + dstep g - int k * slice_width g),
      w_itime = sn_itime (part_p g) - (int k + 1) * (slice_width g mod 86400),
      w_idx_back = masked (sn_idx_back (part_a g)) (live_a g),
      w_xi = clip (start_of g N k sn_x) (- 10) 160,
      w_yi = clip (start_of g N k sn_y) 0 50,
      w_pi = start_of g N k sn_p,
      w_tempi = Some (start_of g N k sn_t),
      w_xf = clip (end_of g N k sn_x) (- 10) 160,
      w_yf = clip (end_of g N k sn_y) 0 50,
      w_pf = end_of g N k sn_p,
      w_tempf = Some (end_of g N k sn_t)\<rparr>"

section \<open>A small run, for concrete instances\<close>

text \<open>
  One parcel, launched at time 0, pristine; a source grid of 2 rows and 3
  columns; one region. The grid of the reanalysis has its origin at \<open>(0, 0)\<close>
  and a spacing of 1. The parcel moves from \<open>(0, 0)\<close> to \<open>(2, 1)\<close> within the
  slice, the path \<open>[(0,0), (1,0), (2,1)]\<close>.
\<close>

definition parcel0 :: parcel where
  "parcel0 = \<lparr>flag = 0, chi = 1, passed = 10, src = (\<lambda>k. None), ir_start = 0,
              part0_x = 0, part0_y = 0, part0_p = 10000, part0_t = 200\<rparr>"

definition tables0 :: tables where
  "tables0 = prod0 [parcel0] 2 3 0"

definition slice0 :: slice_part where
  "slice0 = \<lparr>sl_idx_back = 0, sl_xi = 0, sl_yi = 0, sl_pi = 10000, sl_ti = 200, sl_hyb = 3,
             sl_xf = 2, sl_yf = 1\<rparr>"

text \<open>A field with the same detrainment rate \<open>v\<close> in every cell.\<close>

definition uniform :: "real \<Rightarrow> reanalysis" where
  "uniform v = \<lparr>udr = (\<lambda>h j i. Some v), mask = (\<lambda>j i. Some 0),
                Lo1 = 0, La1 = 0, dlo = 1, dla = 1, xshift = 0, yshift = 0\<rparr>"

definition nhits0 :: "int list" where
  "nhits0 = [0, 0, 0, 0, 0, 0]"

text \<open>
  The run: the slice is processed with a rate of \<open>1/100\<close> per second, then the
  parcel is missing from the next snapshot and \<open>exiter\<close> is called for it at
  its last position \<open>(2, 1)\<close>, then the same slice is processed once more.
\<close>

definition row0 :: part where
  "row0 = \<lparr>row_idx_back = 0, row_x = 2, row_y = 1, row_p = 10000, row_t = 200\<rparr>"

definition domain :: box where
  "domain = ((- 10, 160), (0, 50))"

definition event1 :: event where
  "event1 = Detrainer 0 [slice0] (uniform (1 / 100))"

definition event2 :: event where
  "event2 = Exiter (- 3600) [row0] domain"

definition event3 :: event where
  "event3 = Detrainer (- 3600) [slice0] (uniform (1 / 100))"

text \<open>The milestone of the slice's start point at time 0, and the states of the run.\<close>

definition mark0 :: milestone where
  "mark0 = \<lparr>src_x = 0, src_y = 0, src_p = 10000, src_t = 200, src_age = 0\<rparr>"

definition parcel1 :: parcel where
  "parcel1 = parcel0\<lparr>flag := I_HIT, chi := exp (- 36), passed := 1,
     src := (\<lambda>k. if k \<in> {1, 2, 3, 4, 5} then Some mark0 else None)\<rparr>"

definition tables1 :: tables where
  "tables1 = \<lparr>parcels = [parcel1], source = [[0, 1 - exp (- 36), 0], [0, 0, 0]],
     pl = [1 - exp (- 36)]\<rparr>"

definition parcel2 :: parcel where
  "parcel2 = parcel1\<lparr>flag := 39895040,
     src := (\<lambda>k. if k = 0
       then Some \<lparr>src_x = 2, src_y = 1, src_p = 10000, src_t = 200, src_age = 3600\<rparr>
       else src parcel1 k)\<rparr>"

definition tables2 :: tables where
  "tables2 = tables1\<lparr>parcels := [parcel2]\<rparr>"

section \<open>One hour of one parcel, for concrete instances\<close>

text \<open>
  Two snapshots of one parcel, 7200 seconds apart, cut into two windows of
  3600 seconds. The parcel is at the longitude 170 in the newer snapshot, east
  of the domain, and at 140 in the older one. \<open>hour1\<close> is the same hour with
  no live parcel.
\<close>

definition snap_a0 :: snapshot where
  "snap_a0 = \<lparr>sn_idx_back = [7], sn_x = [170], sn_y = [20], sn_p = [10000], sn_t = [200],
              sn_itime = 86400\<rparr>"

definition snap_p0 :: snapshot where
  "snap_p0 = \<lparr>sn_idx_back = [7], sn_x = [140], sn_y = [26], sn_p = [10600], sn_t = [206],
              sn_itime = 93600\<rparr>"

definition hour0 :: slice_args where
  "hour0 = \<lparr>part_a = snap_a0, part_p = snap_p0, live_a = [True], live_p = [True],
            current_date = 0, dstep = 7200, slice_width = 3600\<rparr>"

definition hour1 :: slice_args where
  "hour1 = hour0\<lparr>live_a := [False], live_p := [False]\<rparr>"

section \<open>The rasterizer: proofs\<close>

lemma length_walk_x [simp]: "length (walk_x dx2 dy2 sx sy n x y err) = n"
  by (induction n arbitrary: x y err) auto

lemma length_walk_y [simp]: "length (walk_y dx2 dy2 sx sy n x y err) = n"
  by (induction n arbitrary: x y err) auto

lemma take_Suc_update: "i < length xs \<Longrightarrow> take (Suc i) (xs[i := v]) = take i xs @ [v]"
  by (simp add: take_Suc_conv_app_nth)

lemma step_dir:
  fixes sx :: int
  assumes "sx * (x1 - x) = int (Suc n)" "sx = 1 \<or> sx = - 1"
  shows "x \<noteq> x1" "sx * (x1 - (x + sx)) = int n"
  using assms by (auto simp: algebra_simps)

lemma loop_x_walk:
  assumes "sx * (x1 - x) = int n" "sx = 1 \<or> sx = - 1" "i \<le> length points"
  shows "loop_x x1 dx2 dy2 sx sy x y err i points =
     (if i + n \<le> length points
      then Inr (i + n, take i points @ walk_x dx2 dy2 sx sy n x y err @ drop (i + n) points)
      else Inl IndexError)"
  using assms
proof (induction n arbitrary: x y err i points)
  case 0
  then have "x = x1" by auto
  with 0 show ?case by (simp add: loop_x.simps [of x1 dx2 dy2 sx sy x1])
next
  case (Suc n)
  note ne = step_dir [OF Suc.prems(1,2)]
  show ?case
  proof (cases "i < length points")
    case True
    then have len: "Suc i \<le> length (points[i := (x, y)])" by simp
    show ?thesis
      using True ne(1)
      by (simp add: loop_x.simps [of x1 dx2 dy2 sx sy x y err i points]
          Suc.IH [OF ne(2) Suc.prems(2) len] take_Suc_update)
  next
    case False
    with ne(1) show ?thesis
      by (simp add: loop_x.simps [of x1 dx2 dy2 sx sy x y err i points])
  qed
qed

lemma loop_y_walk:
  assumes "sy * (y1 - y) = int n" "sy = 1 \<or> sy = - 1" "i \<le> length points"
  shows "loop_y y1 dx2 dy2 sx sy x y err i points =
     (if i + n \<le> length points
      then Inr (i + n, take i points @ walk_y dx2 dy2 sx sy n x y err @ drop (i + n) points)
      else Inl IndexError)"
  using assms
proof (induction n arbitrary: x y err i points)
  case 0
  then have "y = y1" by auto
  with 0 show ?case by (simp add: loop_y.simps [of y1 dx2 dy2 sx sy x y1])
next
  case (Suc n)
  note ne = step_dir [OF Suc.prems(1,2)]
  show ?case
  proof (cases "i < length points")
    case True
    then have len: "Suc i \<le> length (points[i := (x, y)])" by simp
    show ?thesis
      using True ne(1)
      by (simp add: loop_y.simps [of y1 dx2 dy2 sx sy x y err i points]
          Suc.IH [OF ne(2) Suc.prems(2) len] take_Suc_update)
  next
    case False
    with ne(1) show ?thesis
      by (simp add: loop_y.simps [of y1 dx2 dy2 sx sy x y err i points])
  qed
qed










lemma take_Suc_append_update:
  "length ws = n \<Longrightarrow> n < length (ws @ rest) \<Longrightarrow> take (Suc n) ((ws @ rest)[n := v]) = ws @ [v]"
  by (simp add: take_Suc_update)

lemma line_eq:
  "line x0 y0 x1 y1 =
     (if max \<bar>x1 - x0\<bar> \<bar>y1 - y0\<bar> < 40 then Inr (path_cells x0 y0 x1 y1) else Inl IndexError)"
proof (cases "x0 = x1 \<and> y0 = y1")
  case True
  then show ?thesis by (simp add: line_def path_cells_def points0_def take_Suc_update)
next
  case False
  define sx :: int where "sx = (if x0 < x1 then 1 else - 1)"
  define sy :: int where "sy = (if y0 < y1 then 1 else - 1)"
  have s: "sx = 1 \<or> sx = - 1" "sy = 1 \<or> sy = - 1" by (auto simp: sx_def sy_def)
  show ?thesis
  proof (cases "\<bar>x1 - x0\<bar> > \<bar>y1 - y0\<bar>")
    case True
    have n: "sx * (x1 - x0) = int (nat \<bar>x1 - x0\<bar>)" using True by (auto simp: sx_def)
    have "loop_x x1 (2 * \<bar>x1 - x0\<bar>) (2 * \<bar>y1 - y0\<bar>) sx sy x0 y0 \<bar>x1 - x0\<bar> 0 points0 =
       (if nat \<bar>x1 - x0\<bar> \<le> 40
        then Inr (nat \<bar>x1 - x0\<bar>, walk_x (2 * \<bar>x1 - x0\<bar>) (2 * \<bar>y1 - y0\<bar>) sx sy (nat \<bar>x1 - x0\<bar>) x0 y0 \<bar>x1 - x0\<bar>
                    @ drop (nat \<bar>x1 - x0\<bar>) points0)
        else Inl IndexError)"
      using loop_x_walk [OF n s(1), of 0 points0] by (simp add: points0_def)
    with False True show ?thesis
      by (auto simp: line_def path_cells_def Let_def sx_def [symmetric] sy_def [symmetric]
          take_Suc_append_update points0_def)
  next
    case F2: False
    have n: "sy * (y1 - y0) = int (nat \<bar>y1 - y0\<bar>)" using False F2 by (auto simp: sy_def)
    have "loop_y y1 (2 * \<bar>x1 - x0\<bar>) (2 * \<bar>y1 - y0\<bar>) sx sy x0 y0 \<bar>y1 - y0\<bar> 0 points0 =
       (if nat \<bar>y1 - y0\<bar> \<le> 40
        then Inr (nat \<bar>y1 - y0\<bar>, walk_y (2 * \<bar>x1 - x0\<bar>) (2 * \<bar>y1 - y0\<bar>) sx sy (nat \<bar>y1 - y0\<bar>) x0 y0 \<bar>y1 - y0\<bar>
                    @ drop (nat \<bar>y1 - y0\<bar>) points0)
        else Inl IndexError)"
      using loop_y_walk [OF n s(2), of 0 points0] by (simp add: points0_def)
    with False F2 show ?thesis
      by (auto simp: line_def path_cells_def Let_def sx_def [symmetric] sy_def [symmetric]
          take_Suc_append_update points0_def)
  qed
qed




subsection \<open>The path that \<open>line\<close> returns\<close>




subsection \<open>The 40-row buffer\<close>




section \<open>The detrainment engine: proofs\<close>

lemma resolve_less: "resolve n i = Some j \<Longrightarrow> j < n"
  by (auto simp: resolve_def split: if_splits)




lemma sum_udr_rate:
  "\<forall>c \<in> set ll. u h (snd c) (fst c) = Some (rate c) \<Longrightarrow>
     sum_udr u h ll detr = Inr (detr + sum_list (map rate ll))"
  by (induction ll arbitrary: detr) (auto simp: algebra_simps)

subsection \<open>What the ratchet leaves alone\<close>

lemma rung1_chi: "chi (fst (rung1 itime a x)) = chi (fst x)"
  by (cases x) (simp add: rung1_def archive_rung_def archive_def)

lemma rung_chi: "chi (fst (rung k from thr to itime a x)) = chi (fst x)"
  by (cases x) (simp add: rung_def archive_rung_def archive_def)

lemma ratchet_chi: "chi (fst (ratchet itime a x)) = chi (fst x)"
  by (cases x) (simp add: ratchet_def rung_chi rung1_chi)

subsection \<open>One parcel of a slice\<close>

lemma erode_Inr:
  assumes "erode itime g nlat nlon a i0 xig yig xfg yfg detr (s, nhits) = Inr (s', nhits')"
  obtains source' code r where
    "add_cell (source s) (midpoint nlat yig yfg (yshift g)) (midpoint nlon xig xfg (xshift g))
       (chi (parcels s ! i0) - chi (parcels s ! i0) * exp (- 3600 * detr)) = Inr source'"
    "mask g (midpoint nlat yig yfg (yshift g)) (midpoint nlon xig xfg (xshift g)) = Some code"
    "resolve (length (pl s)) code = Some r"
    "s' = s\<lparr>parcels := (parcels s)[i0 :=
              fst (ratchet itime a ((parcels s ! i0)\<lparr>chi := chi (parcels s ! i0) * exp (- 3600 * detr)\<rparr>, nhits))],
            source := source',
            pl := (pl s)[r := pl s ! r + (chi (parcels s ! i0) - chi (parcels s ! i0) * exp (- 3600 * detr))]\<rparr>"
    "nhits' = snd (ratchet itime a ((parcels s ! i0)\<lparr>chi := chi (parcels s ! i0) * exp (- 3600 * detr)\<rparr>, nhits))"
  using assms
  by (auto simp: erode_def Let_def split: sum.splits option.splits prod.splits)

lemma erode_chi:
  assumes "erode itime g nlat nlon a i0 xig yig xfg yfg detr (s, nhits) = Inr (s', nhits')"
    and "i0 < length (parcels s)"
  shows "chi (parcels s' ! i0) = chi (parcels s ! i0) * exp (- 3600 * detr)"
  using assms(1)
proof (rule erode_Inr)
  fix source' code r
  assume "s' = s\<lparr>parcels := (parcels s)[i0 :=
              fst (ratchet itime a ((parcels s ! i0)\<lparr>chi := chi (parcels s ! i0) * exp (- 3600 * detr)\<rparr>, nhits))],
            source := source',
            pl := (pl s)[r := pl s ! r + (chi (parcels s ! i0) - chi (parcels s ! i0) * exp (- 3600 * detr))]\<rparr>"
  with assms(2) show ?thesis by (simp add: ratchet_chi)
qed


lemma detrain_one_live:
  assumes "resolve (length (parcels s)) (sl_idx_back a - orgn) = Some i0"
    and "flag (parcels s ! i0) AND I_DEAD = 0"
    and "to_grid (sl_xi a) (Lo1 g) (dlo g) = Inr xig"
    and "to_grid (sl_yi a) (La1 g) (dla g) = Inr yig"
    and "to_grid (sl_xf a) (Lo1 g) (dlo g) = Inr xfg"
    and "to_grid (sl_yf a) (La1 g) (dla g) = Inr yfg"
    and "line xig yig xfg yfg = Inr ll"
    and "\<forall>c \<in> set ll. udr g (sl_hyb a) (snd c) (fst c) = Some (rate c)"
  shows "detrain_one orgn itime g off nlat nlon a (s, nhits) =
     (if off \<le> sum_list (map rate ll) / real (length ll)
      then erode itime g nlat nlon a i0 xig yig xfg yfg
             (sum_list (map rate ll) / real (length ll)) (s, nhits)
      else Inr (s, nhits))"
  using assms(1-7) sum_udr_rate [of ll "udr g" "sl_hyb a" rate 0, OF assms(8)]
  by (simp add: detrain_one_def)

lemma detrain_one_dead:
  assumes "resolve (length (parcels s)) (sl_idx_back a - orgn) = Some i0"
    and "flag (parcels s ! i0) AND I_DEAD \<noteq> 0"
  shows "detrain_one orgn itime g off nlat nlon a (s, nhits) = Inr (s, nhits)"
  using assms by (simp add: detrain_one_def)

subsection \<open>The erosion formula\<close>


lemma line_0021: "line 0 0 2 1 = Inr [(0, 0), (1, 0), (2, 1)]"
  by (simp add: line_eq path_cells_def eval_nat_numeral)


section \<open>Runs: proofs\<close>

subsection \<open>Loops\<close>

lemma for_each_rel:
  assumes body: "\<And>a s s'. body a s = Inr s' \<Longrightarrow> R s s'"
    and refl: "\<And>s. R s s"
    and trans: "\<And>s t u. R s t \<Longrightarrow> R t u \<Longrightarrow> R s u"
  shows "for_each body as s = Inr s' \<Longrightarrow> R s s'"
proof (induction as arbitrary: s)
  case Nil
  then show ?case by (simp add: refl)
next
  case (Cons a as)
  then obtain t where t: "body a s = Inr t" and rest: "for_each body as t = Inr s'"
    by (auto split: sum.splits)
  from body [OF t] Cons.IH [OF rest] show ?case by (rule trans)
qed

lemma for_each_inv:
  assumes body: "\<And>a s s'. I s \<Longrightarrow> body a s = Inr s' \<Longrightarrow> I s'"
  shows "I s \<Longrightarrow> for_each body as s = Inr s' \<Longrightarrow> I s'"
proof (induction as arbitrary: s)
  case Nil
  then show ?case by simp
next
  case (Cons a as)
  from Cons.prems(2) obtain t where t: "body a s = Inr t" and rest: "for_each body as t = Inr s'"
    by (auto split: sum.splits)
  from body [OF Cons.prems(1) t] rest show ?case by (rule Cons.IH)
qed

lemma for_each_append:
  "for_each body (as @ bs) s =
     (case for_each body as s of Inl e \<Rightarrow> Inl e | Inr t \<Rightarrow> for_each body bs t)"
  by (induction as arbitrary: s) (auto split: sum.splits)

lemma fold_rel:
  assumes body: "\<And>a s. R s (f a s)"
    and refl: "\<And>s. R s s"
    and trans: "\<And>s t u. R s t \<Longrightarrow> R t u \<Longrightarrow> R s u"
  shows "R s (fold f as s)"
proof (induction as arbitrary: s)
  case Nil
  show ?case by (simp add: refl)
next
  case (Cons a as)
  from body [of s a] Cons.IH [of "f a s"] show ?case by (simp add: trans)
qed

subsection \<open>The relations between an earlier and a later parcel\<close>

lemma and_or_same: "(f :: int) AND (f OR m) = f"
  by (auto simp: bit_eq_iff bit_and_iff bit_or_iff)

lemma evolves_refl: "evolves q q"
  by (simp add: evolves_def)

lemma evolves_trans [trans]: "evolves q q' \<Longrightarrow> evolves q' q'' \<Longrightarrow> evolves q q''"
proof -
  assume a: "evolves q q'" and b: "evolves q' q''"
  have "flag q AND flag q'' = (flag q AND flag q') AND flag q''"
    using a by (simp add: evolves_def)
  also have "\<dots> = flag q AND (flag q' AND flag q'')"
    by (simp add: and.assoc)
  also have "\<dots> = flag q"
    using a b by (simp add: evolves_def)
  finally show ?thesis
    using a b by (auto simp: evolves_def)
qed

lemma frozen_refl: "frozen q q"
  by (simp add: frozen_def)

lemma frozen_trans: "frozen q q' \<Longrightarrow> frozen q' q'' \<Longrightarrow> frozen q q''"
  by (auto simp: frozen_def)

lemma all2_refl: "(\<And>q. R q q) \<Longrightarrow> list_all2 R ps ps"
  by (simp add: list_all2_same)

lemma all2_trans:
  "(\<And>q q' q''. R q q' \<Longrightarrow> R q' q'' \<Longrightarrow> R q q'') \<Longrightarrow>
     list_all2 R ps ps' \<Longrightarrow> list_all2 R ps' ps'' \<Longrightarrow> list_all2 R ps ps''"
  by (rule list_all2_trans)

lemma all2_update:
  assumes "\<And>q. R q q" "R (ps ! i) q'"
  shows "list_all2 R ps (ps[i := q'])"
proof -
  have "list_all2 R (ps[i := ps ! i]) (ps[i := q'])"
    by (intro list_all2_update_cong all2_refl assms)
  then show ?thesis by simp
qed

lemma archive_fields [simp]:
  "flag (archive k vx vy vp vt vage q) = flag q"
  "chi (archive k vx vy vp vt vage q) = chi q"
  "passed (archive k vx vy vp vt vage q) = passed q"
  "ir_start (archive k vx vy vp vt vage q) = ir_start q"
  by (simp_all add: archive_def)

subsection \<open>The handlers\<close>

lemma exiter_one_evolves:
  "exiter_one orgn itime rr a (ps, n) = Inr (ps', n') \<Longrightarrow> list_all2 evolves ps ps'"
  by (auto simp: exiter_one_def evolves_def and_or_same split: option.splits if_splits
      intro!: all2_update all2_refl)

lemma radada_one_evolves:
  "radada_one orgn itime a (ps, n) = Inr (ps', n') \<Longrightarrow> list_all2 evolves ps ps'"
  by (auto simp: radada_one_def evolves_def and_or_same split: option.splits if_splits
      intro!: all2_update all2_refl)

lemma age_one_evolves: "list_all2 evolves ps (age_one orgn itime a ps)"
  by (auto simp: age_one_def age_mark_def evolves_def and_or_same split: option.splits
      intro!: all2_update all2_refl)

lemma dborne_one_evolves: "list_all2 evolves ps (dborne_one orgn i ps)"
  by (auto simp: dborne_one_def evolves_def and_or_same split: option.splits
      intro!: all2_update all2_refl)

lemma exiter_one_frozen:
  "exiter_one orgn itime rr a (ps, n) = Inr (ps', n') \<Longrightarrow> list_all2 frozen ps ps'"
  by (auto simp: exiter_one_def frozen_def split: option.splits if_splits
      intro!: all2_update all2_refl)

lemma radada_one_frozen:
  "radada_one orgn itime a (ps, n) = Inr (ps', n') \<Longrightarrow> list_all2 frozen ps ps'"
  by (auto simp: radada_one_def frozen_def split: option.splits if_splits
      intro!: all2_update all2_refl)

lemma for_each_all2:
  assumes refl: "\<And>q. R q q"
    and trans: "\<And>q q' q''. R q q' \<Longrightarrow> R q' q'' \<Longrightarrow> R q q''"
    and body: "\<And>a x y. body a x = Inr y \<Longrightarrow> list_all2 R (sel x) (sel y)"
    and run: "for_each body as x = Inr y"
  shows "list_all2 R (sel x) (sel y)"
  using run
proof (rule for_each_rel [where R = "\<lambda>x y. list_all2 R (sel x) (sel y)", rotated 3])
  show "body a s = Inr s' \<Longrightarrow> list_all2 R (sel s) (sel s')" for a s s' by (rule body)
  show "list_all2 R (sel s) (sel s)" for s by (simp add: all2_refl refl)
  show "list_all2 R (sel s) (sel t) \<Longrightarrow> list_all2 R (sel t) (sel u) \<Longrightarrow> list_all2 R (sel s) (sel u)"
    for s t u
    using trans by (rule all2_trans)
qed

lemma for_each_evolves:
  assumes "\<And>a x y. body a x = Inr y \<Longrightarrow> list_all2 evolves (sel x) (sel y)"
    and "for_each body as x = Inr y"
  shows "list_all2 evolves (sel x) (sel y)"
proof (rule for_each_all2 [where R = evolves and body = body])
  show "evolves q q" for q by (rule evolves_refl)
  show "evolves q q' \<Longrightarrow> evolves q' q'' \<Longrightarrow> evolves q q''" for q q' q''
    by (rule evolves_trans)
qed (use assms in auto)

lemma for_each_frozen:
  assumes "\<And>a x y. body a x = Inr y \<Longrightarrow> list_all2 frozen (sel x) (sel y)"
    and "for_each body as x = Inr y"
  shows "list_all2 frozen (sel x) (sel y)"
proof (rule for_each_all2 [where R = frozen and body = body])
  show "frozen q q" for q by (rule frozen_refl)
  show "frozen q q' \<Longrightarrow> frozen q' q'' \<Longrightarrow> frozen q q''" for q q' q''
    by (rule frozen_trans)
qed (use assms in auto)

subsection \<open>The ratchet and the erosion\<close>

lemma rung1_evolves: "evolves (fst x) (fst (rung1 itime a x))"
  by (cases x) (simp add: rung1_def archive_rung_def evolves_def and_or_same rungs_def)

lemma rung_evolves:
  "to \<in> rungs \<Longrightarrow> to \<le> from \<Longrightarrow> evolves (fst x) (fst (rung k from thr to itime a x))"
  by (cases x) (simp add: rung_def archive_rung_def evolves_def)

lemma ratchet_evolves: "evolves (fst x) (fst (ratchet itime a x))"
proof (cases x)
  case (Pair q nhits)
  have r2: "evolves (fst y) (fst (rung 2 9 (7 / 10) 7 itime a y))"
    and r3: "evolves (fst y) (fst (rung 3 7 (5 / 10) 5 itime a y))"
    and r4: "evolves (fst y) (fst (rung 4 5 (3 / 10) 3 itime a y))"
    and r5: "evolves (fst y) (fst (rung 5 3 (1 / 10) 1 itime a y))" for y
    by (rule rung_evolves; simp add: rungs_def)+
  show ?thesis
  proof (cases "passed q > 1")
    case True
    define x1 where "x1 = rung1 itime a x"
    define x2 where "x2 = rung 2 9 (7 / 10) 7 itime a x1"
    define x3 where "x3 = rung 3 7 (5 / 10) 5 itime a x2"
    define x4 where "x4 = rung 4 5 (3 / 10) 3 itime a x3"
    define x5 where "x5 = rung 5 3 (1 / 10) 1 itime a x4"
    have "evolves (fst x) (fst x1)" unfolding x1_def by (rule rung1_evolves)
    also have "evolves (fst x1) (fst x2)" unfolding x2_def by (rule r2)
    also have "evolves (fst x2) (fst x3)" unfolding x3_def by (rule r3)
    also have "evolves (fst x3) (fst x4)" unfolding x4_def by (rule r4)
    also have "evolves (fst x4) (fst x5)" unfolding x5_def by (rule r5)
    finally have "evolves (fst x) (fst x5)" .
    with True Pair show ?thesis
      by (simp add: ratchet_def x1_def x2_def x3_def x4_def x5_def)
  next
    case False
    with Pair show ?thesis by (simp add: ratchet_def evolves_refl)
  qed
qed

lemma erosion_evolves:
  assumes "0 \<le> detr"
  shows "evolves q (fst (ratchet itime a (q\<lparr>chi := chi q * exp (- 3600 * detr)\<rparr>, nhits)))"
proof -
  from assms have "exp (- 3600 * detr) \<le> 1" by simp
  then have "0 < chi q \<Longrightarrow> chi q * exp (- 3600 * detr) \<le> chi q"
    by (simp add: mult_left_le)
  then have "evolves q (q\<lparr>chi := chi q * exp (- 3600 * detr)\<rparr>)"
    by (simp add: evolves_def)
  moreover have "evolves (q\<lparr>chi := chi q * exp (- 3600 * detr)\<rparr>)
      (fst (ratchet itime a (q\<lparr>chi := chi q * exp (- 3600 * detr)\<rparr>, nhits)))"
    using ratchet_evolves [of "(q\<lparr>chi := chi q * exp (- 3600 * detr)\<rparr>, nhits)"] by simp
  ultimately show ?thesis by (rule evolves_trans)
qed

text \<open>
  What \<open>detrain_one\<close> does, in two cases: nothing, or the erosion of a live
  parcel with a mean rate at or above the offset.
\<close>

lemma detrain_one_cases:
  assumes "detrain_one orgn itime g off nlat nlon a (s, nhits) = Inr (s', nhits')"
  obtains (same) "s' = s" "nhits' = nhits"
  | (eroded) i0 xig yig xfg yfg detr where
      "resolve (length (parcels s)) (sl_idx_back a - orgn) = Some i0"
      "flag (parcels s ! i0) AND I_DEAD = 0" "off \<le> detr"
      "erode itime g nlat nlon a i0 xig yig xfg yfg detr (s, nhits) = Inr (s', nhits')"
      "to_grid (sl_xi a) (Lo1 g) (dlo g) = Inr xig" "to_grid (sl_yi a) (La1 g) (dla g) = Inr yig"
      "to_grid (sl_xf a) (Lo1 g) (dlo g) = Inr xfg" "to_grid (sl_yf a) (La1 g) (dla g) = Inr yfg"
  using assms
  by (auto simp: detrain_one_def split: option.splits if_splits sum.splits)

lemma detrain_one_evolves:
  assumes "0 \<le> off"
    and "detrain_one orgn itime g off nlat nlon a (s, nhits) = Inr (s', nhits')"
  shows "list_all2 evolves (parcels s) (parcels s')"
  using assms(2)
proof (cases rule: detrain_one_cases)
  case same
  then show ?thesis by (simp add: all2_refl evolves_refl)
next
  case (eroded i0 xig yig xfg yfg detr)
  from eroded(3) assms(1) have "0 \<le> detr" by simp
  from eroded(4) erosion_evolves [OF this] show ?thesis
    by (elim erode_Inr) (simp add: all2_update evolves_refl)
qed

lemma detrain_one_frozen:
  assumes "detrain_one orgn itime g off nlat nlon a (s, nhits) = Inr (s', nhits')"
  shows "list_all2 frozen (parcels s) (parcels s')"
  using assms
proof (cases rule: detrain_one_cases)
  case same
  then show ?thesis by (simp add: all2_refl frozen_refl)
next
  case (eroded i0 xig yig xfg yfg detr)
  from eroded(2) have "frozen (parcels s ! i0) q'" for q'
    by (simp add: frozen_def)
  with eroded(4) show ?thesis
    by (elim erode_Inr) (simp add: all2_update frozen_refl)
qed

subsection \<open>Handlers, steps and runs\<close>

lemma exiter_evolves:
  assumes "exiter orgn itime rows rr ps = Inr (ps', n)"
  shows "list_all2 evolves ps ps'"
  using for_each_evolves [where sel = fst and body = "exiter_one orgn itime rr", OF _ assms [unfolded exiter_def]]
    exiter_one_evolves
  by fastforce

lemma exiter_frozen:
  assumes "exiter orgn itime rows rr ps = Inr (ps', n)"
  shows "list_all2 frozen ps ps'"
  using for_each_frozen [where sel = fst and body = "exiter_one orgn itime rr", OF _ assms [unfolded exiter_def]]
    exiter_one_frozen
  by fastforce

lemma radada_evolves:
  assumes "radada orgn itime rows ps = Inr (ps', n)"
  shows "list_all2 evolves ps ps'"
  using for_each_evolves [where sel = fst and body = "radada_one orgn itime", OF _ assms [unfolded radada_def]]
    radada_one_evolves
  by fastforce

lemma radada_frozen:
  assumes "radada orgn itime rows ps = Inr (ps', n)"
  shows "list_all2 frozen ps ps'"
  using for_each_frozen [where sel = fst and body = "radada_one orgn itime", OF _ assms [unfolded radada_def]]
    radada_one_frozen
  by fastforce

lemma detrainer_evolves:
  assumes "0 \<le> off" and "detrainer orgn itime rows g off s = Inr (s', nhits)"
  shows "list_all2 evolves (parcels s) (parcels s')"
proof -
  from assms(2) obtain nlat nlon where
    run: "for_each (detrain_one orgn itime g off nlat nlon) rows (s, [0, 0, 0, 0, 0, 0]) = Inr (s', nhits)"
    by (auto simp: detrainer_def split: list.splits)
  show ?thesis
    using for_each_evolves [where sel = "\<lambda>x. parcels (fst x)", OF _ run]
      detrain_one_evolves [OF assms(1)]
    by fastforce
qed

lemma detrainer_frozen:
  assumes "detrainer orgn itime rows g off s = Inr (s', nhits)"
  shows "list_all2 frozen (parcels s) (parcels s')"
proof -
  from assms obtain nlat nlon where
    run: "for_each (detrain_one orgn itime g off nlat nlon) rows (s, [0, 0, 0, 0, 0, 0]) = Inr (s', nhits)"
    by (auto simp: detrainer_def split: list.splits)
  show ?thesis
    using for_each_frozen [where sel = "\<lambda>x. parcels (fst x)", OF _ run] detrain_one_frozen
    by fastforce
qed

lemma fold_evolves:
  assumes "\<And>a ps. list_all2 evolves ps (f a ps)"
  shows "list_all2 evolves ps (fold f as ps)"
proof (rule fold_rel [where R = "list_all2 evolves"])
  show "list_all2 evolves s (f a s)" for a s by (rule assms)
  show "list_all2 evolves s s" for s by (simp add: all2_refl evolves_refl)
  show "list_all2 evolves s t \<Longrightarrow> list_all2 evolves t u \<Longrightarrow> list_all2 evolves s u" for s t u
    using evolves_trans by (rule all2_trans)
qed

lemma age_sweep_evolves:
  assumes "age_sweep orgn age_bound itime rows ps = Inr ps'"
  shows "list_all2 evolves ps ps'"
proof -
  from assms have "ps' = fold (age_one orgn itime) (filter (IIold_o orgn age_bound itime ps) rows) ps"
    by (simp add: age_sweep_def split: if_splits)
  then show ?thesis by (simp add: fold_evolves age_one_evolves)
qed

lemma deadborne_evolves:
  assumes "deadborne orgn idx1 numpart_s idx_act ps = Inr ps'"
  shows "list_all2 evolves ps ps'"
proof -
  from assms have "ps' = fold (dborne_one orgn)
      (filter (\<lambda>i. i \<notin> set idx_act) [idx1 .. numpart_s + orgn - 1]) ps"
    by (simp add: deadborne_def Let_def split: if_splits)
  then show ?thesis by (simp add: fold_evolves dborne_one_evolves)
qed

lemma main_detr_offset_pos: "0 < main_detr_offset"
  by (simp add: main_detr_offset_def)

lemma step_evolves:
  assumes "step orgn ev s = Inr s'"
  shows "list_all2 evolves (parcels s) (parcels s')"
proof (cases ev)
  case (Deadborne idx1 numpart_s idx_act)
  with assms obtain ps where "deadborne orgn idx1 numpart_s idx_act (parcels s) = Inr ps"
    and "s' = s\<lparr>parcels := ps\<rparr>"
    by (auto split: sum.splits)
  then show ?thesis by (simp add: deadborne_evolves)
next
  case (Exiter itime rows rr)
  with assms obtain ps n where "exiter orgn itime rows rr (parcels s) = Inr (ps, n)"
    and "s' = s\<lparr>parcels := ps\<rparr>"
    by (auto split: sum.splits)
  then show ?thesis by (simp add: exiter_evolves)
next
  case (Radada itime rows)
  with assms obtain ps n where "radada orgn itime rows (parcels s) = Inr (ps, n)"
    and "s' = s\<lparr>parcels := ps\<rparr>"
    by (auto split: sum.splits)
  then show ?thesis by (simp add: radada_evolves)
next
  case (Detrainer itime rows g)
  with assms obtain nhits where "detrainer orgn itime rows g main_detr_offset s = Inr (s', nhits)"
    by (auto split: sum.splits)
  with main_detr_offset_pos show ?thesis
    by (intro detrainer_evolves [where off = main_detr_offset]) auto
next
  case (AgeLimit age_bound itime rows)
  with assms obtain ps where "age_sweep orgn age_bound itime rows (parcels s) = Inr ps"
    and "s' = s\<lparr>parcels := ps\<rparr>"
    by (auto split: sum.splits)
  then show ?thesis by (simp add: age_sweep_evolves)
qed

lemma run_evolves:
  assumes "run orgn evs s = Inr s'"
  shows "list_all2 evolves (parcels s) (parcels s')"
  using assms unfolding run_def
  by (rule for_each_evolves [where sel = parcels, rotated]) (rule step_evolves)

subsection \<open>The small run\<close>

lemma exp_m36: "exp (- 36 :: real) < 1 / 10"
proof -
  have "(37 :: real) \<le> exp 36" using exp_ge_add_one_self [of "36 :: real"] by simp
  then have "inverse (exp (36 :: real)) \<le> inverse 37"
    by (intro le_imp_inverse_le) auto
  then show ?thesis by (simp add: exp_minus)
qed

lemma tables0_eq: "tables0 = \<lparr>parcels = [parcel0], source = [[0, 0, 0], [0, 0, 0]], pl = [0]\<rparr>"
  by (simp add: tables0_def prod0_def parcel0_def eval_nat_numeral)

lemma ratchet1:
  "ratchet 0 slice0 (parcel0\<lparr>chi := exp (- 36)\<rparr>, nhits0) = (parcel1, [0, 1, 1, 1, 1, 1])"
  using exp_m36
  by (auto simp: ratchet_def rung1_def rung_def archive_rung_def archive_def parcel0_def parcel1_def
      nhits0_def slice0_def mark0_def fun_eq_iff)

lemma erode1:
  "erode 0 (uniform (1 / 100)) 2 3 slice0 0 0 0 2 1 (1 / 100) (tables0, nhits0)
     = Inr (tables1, [0, 1, 1, 1, 1, 1])"
proof -
  have p: "parcels tables0 ! 0 = parcel0" "chi parcel0 = 1" by (simp_all add: tables0_eq parcel0_def)
  show ?thesis
    apply (simp add: erode_def Let_def p ratchet1 midpoint_def int_half_def uniform_def)
    apply (simp add: tables0_eq add_cell_def resolve_def tables1_def p ratchet1)
    done
qed


lemma detrain1:
  "detrain_one 0 0 (uniform (1 / 100)) main_detr_offset 2 3 slice0 (tables0, nhits0)
     = Inr (tables1, [0, 1, 1, 1, 1, 1])"
proof -
  have "detrain_one 0 0 (uniform (1 / 100)) main_detr_offset 2 3 slice0 (tables0, nhits0) =
     (if main_detr_offset \<le> sum_list (map (\<lambda>c. 1 / 100) [(0, 0), (1, 0), (2 :: int, 1 :: int)])
           / real (length [(0, 0), (1, 0), (2 :: int, 1 :: int)])
      then erode 0 (uniform (1 / 100)) 2 3 slice0 0 0 0 2 1
             (sum_list (map (\<lambda>c. 1 / 100) [(0, 0), (1, 0), (2 :: int, 1 :: int)])
               / real (length [(0, 0), (1, 0), (2 :: int, 1 :: int)])) (tables0, nhits0)
      else Inr (tables0, nhits0))"
    by (rule detrain_one_live [where ?i0.0 = 0])
      (simp_all add: tables0_eq parcel0_def slice0_def uniform_def resolve_def I_DEAD_def
        to_grid_def line_0021)
  then show ?thesis by (simp add: erode1 main_detr_offset_def)
qed

lemma detrainer1:
  "detrainer 0 0 [slice0] (uniform (1 / 100)) main_detr_offset tables0
     = Inr (tables1, [0, 1, 1, 1, 1, 1])"
proof -
  have src: "source tables0 = [0, 0, 0] # [[0, 0, 0]]" by (simp add: tables0_eq)
  have len: "length (source tables0) = 2" "length [0 :: real, 0, 0] = 3" by (simp_all add: src)
  have "detrainer 0 0 [slice0] (uniform (1 / 100)) main_detr_offset tables0 =
      for_each (detrain_one 0 0 (uniform (1 / 100)) main_detr_offset (length (source tables0))
        (length [0 :: real, 0, 0])) [slice0] (tables0, nhits0)"
    by (simp add: detrainer_def src nhits0_def)
  then show ?thesis unfolding len by (simp add: detrain1)
qed

lemma step1: "step 0 event1 tables0 = Inr tables1"
  by (simp add: event1_def detrainer1)

lemma step2: "step 0 event2 tables1 = Inr tables2"
  by (simp add: event2_def exiter_def exiter_one_def tables1_def tables2_def parcel2_def parcel1_def
      parcel0_def row0_def resolve_def I_DEAD_def I_HIT_def I_CROSSED_def excode_def domain_def
      archive_def fun_eq_iff)

lemma step3: "step 0 event3 tables2 = Inr tables2"
  by (simp add: event3_def detrainer_def detrain_one_def tables1_def tables2_def parcel2_def
      parcel1_def parcel0_def slice0_def resolve_def I_DEAD_def)

lemma run123: "run 0 [event1, event2, event3] tables0 = Inr tables2"
  by (simp add: run_def step1 step2 step3)

subsection \<open>The survival fraction\<close>

lemma all2_nth: "list_all2 R ps ps' \<Longrightarrow> j < length ps \<Longrightarrow> R (ps ! j) (ps' ! j)"
  by (simp add: list_all2_conv_all_nth)

lemma prod0_parcels:
  "q \<in> set (parcels (prod0 part0 nlat nlon nreg)) \<Longrightarrow> chi q = 1 \<and> passed q = 10"
  by (auto simp: prod0_def)

lemma reachable_parcel:
  assumes "run orgn evs (prod0 part0 nlat nlon nreg) = Inr s" and "j < length (parcels s)"
  shows "0 < chi (parcels s ! j) \<and> chi (parcels s ! j) \<le> 1 \<and> passed (parcels s ! j) \<in> rungs"
proof -
  from run_evolves [OF assms(1)]
  have all2: "list_all2 evolves (parcels (prod0 part0 nlat nlon nreg)) (parcels s)" .
  with assms(2) have j: "j < length (parcels (prod0 part0 nlat nlon nreg))"
    by (simp add: list_all2_lengthD)
  then have "parcels (prod0 part0 nlat nlon nreg) ! j \<in> set (parcels (prod0 part0 nlat nlon nreg))"
    by (rule nth_mem)
  then have "chi (parcels (prod0 part0 nlat nlon nreg) ! j) = 1"
    and "passed (parcels (prod0 part0 nlat nlon nreg) ! j) = 10"
    by (simp_all add: prod0_parcels)
  with all2_nth [OF all2 j] show ?thesis
    by (simp add: evolves_def rungs_def)
qed



subsection \<open>Flags, and parcels that are dead\<close>

text \<open>
  Claim C3. Between any two points of a run, no bit of any parcel's flag is
  cleared: the flag at the earlier point is a bitwise subset of the flag at
  the later one. And a parcel whose \<open>I_DEAD\<close> bit is set when \<open>exiter\<close>,
  \<open>radada\<close> or \<open>detrainer\<close> is called has the same flag, \<open>chi\<close>, ratchet and
  milestone slots when the call returns.
\<close>

theorem flags_grow_dead_frozen:
  "(run orgn evs s = Inr s' \<longrightarrow>
      length (parcels s') = length (parcels s) \<and>
      (\<forall>j < length (parcels s). flag (parcels s ! j) AND flag (parcels s' ! j) = flag (parcels s ! j))) \<and>
   (exiter orgn itime rows rr ps = Inr (ps', n) \<longrightarrow>
      (\<forall>j < length ps. flag (ps ! j) AND I_DEAD \<noteq> 0 \<longrightarrow> ps' ! j = ps ! j)) \<and>
   (radada orgn itime rows ps = Inr (ps', n) \<longrightarrow>
      (\<forall>j < length ps. flag (ps ! j) AND I_DEAD \<noteq> 0 \<longrightarrow> ps' ! j = ps ! j)) \<and>
   (detrainer orgn itime srows g off t = Inr (t', nhits) \<longrightarrow>
      (\<forall>j < length (parcels t). flag (parcels t ! j) AND I_DEAD \<noteq> 0 \<longrightarrow>
         parcels t' ! j = parcels t ! j))"
proof (intro conjI impI allI)
  assume "run orgn evs s = Inr s'"
  then have all2: "list_all2 evolves (parcels s) (parcels s')" by (rule run_evolves)
  then show "length (parcels s') = length (parcels s)" by (simp add: list_all2_lengthD)
  fix j assume "j < length (parcels s)"
  from all2_nth [OF all2 this]
  show "flag (parcels s ! j) AND flag (parcels s' ! j) = flag (parcels s ! j)"
    by (simp add: evolves_def)
next
  fix j assume "exiter orgn itime rows rr ps = Inr (ps', n)" "j < length ps"
    "flag (ps ! j) AND I_DEAD \<noteq> 0"
  with all2_nth [OF exiter_frozen] show "ps' ! j = ps ! j" by (simp add: frozen_def)
next
  fix j assume "radada orgn itime rows ps = Inr (ps', n)" "j < length ps"
    "flag (ps ! j) AND I_DEAD \<noteq> 0"
  with all2_nth [OF radada_frozen] show "ps' ! j = ps ! j" by (simp add: frozen_def)
next
  fix j assume "detrainer orgn itime srows g off t = Inr (t', nhits)" "j < length (parcels t)"
    "flag (parcels t ! j) AND I_DEAD \<noteq> 0"
  with all2_nth [OF detrainer_frozen] show "parcels t' ! j = parcels t ! j"
    by (simp add: frozen_def)
qed

theorem flags_grow_dead_frozen_witness:
  "run 0 [event1, event2, event3] tables0 = Inr tables2 \<and>
   flag (parcels tables0 ! 0) AND flag (parcels tables2 ! 0) = flag (parcels tables0 ! 0) \<and>
   flag (parcels tables2 ! 0) AND I_DEAD \<noteq> 0 \<and>
   exiter 0 (- 3600) [row0] domain [parcel2] = Inr ([parcel2], 0) \<and>
   radada 0 (- 3600) [row0] [parcel2] = Inr ([parcel2], 0) \<and>
   detrainer 0 (- 3600) [slice0] (uniform (1 / 100)) main_detr_offset tables2 = Inr (tables2, nhits0)"
proof -
  have dead: "flag parcel2 AND I_DEAD \<noteq> 0"
    by (simp add: parcel2_def I_DEAD_def)
  have e: "exiter 0 (- 3600) [row0] domain [parcel2] = Inr ([parcel2], 0)"
    using dead by (simp add: exiter_def exiter_one_def row0_def resolve_def)
  have r: "radada 0 (- 3600) [row0] [parcel2] = Inr ([parcel2], 0)"
    using dead by (simp add: radada_def radada_one_def row0_def resolve_def)
  have d: "detrainer 0 (- 3600) [slice0] (uniform (1 / 100)) main_detr_offset tables2
      = Inr (tables2, nhits0)"
    using dead
    by (simp add: detrainer_def detrain_one_def tables2_def tables1_def slice0_def resolve_def
        nhits0_def)
  from flags_grow_dead_frozen [where orgn = 0 and evs = "[event1, event2, event3]"
      and s = tables0 and s' = tables2 and itime = "- 3600" and rows = "[row0]" and rr = domain
      and ps = "[parcel2]" and ps' = "[parcel2]" and n = 0 and srows = "[slice0]"
      and g = "uniform (1 / 100)" and off = main_detr_offset and t = tables2 and t' = tables2
      and nhits = nhits0] run123 e r d dead
  show ?thesis
    by (simp add: tables0_eq tables2_def)
qed

subsection \<open>The accumulators\<close>

lemma sum_list_update_real:
  fixes xs :: "real list"
  shows "i < length xs \<Longrightarrow> sum_list (xs[i := v]) = sum_list xs - xs ! i + v"
proof (induction xs arbitrary: i)
  case Nil
  then show ?case by simp
next
  case (Cons x xs)
  then show ?case by (cases i) auto
qed

lemma sum_list_map_update:
  fixes f :: "'a \<Rightarrow> real"
  shows "i < length xs \<Longrightarrow> sum_list (map f (xs[i := v])) = sum_list (map f xs) - f (xs ! i) + f v"
  by (simp add: map_update sum_list_update_real)

lemma add_cell_cases:
  assumes "add_cell grid ym xm d = Inr grid'"
  obtains r c where "resolve (length grid) ym = Some r" "resolve (length (grid ! r)) xm = Some c"
    "grid' = grid[r := (grid ! r)[c := grid ! r ! c + d]]"
  using assms by (auto simp: add_cell_def split: option.splits)

lemma add_cell_total:
  assumes "add_cell grid ym xm d = Inr grid'"
  shows "sum_list (map sum_list grid') = sum_list (map sum_list grid) + d"
  using assms
proof (rule add_cell_cases)
  fix r c
  assume r: "resolve (length grid) ym = Some r" and c: "resolve (length (grid ! r)) xm = Some c"
    and g: "grid' = grid[r := (grid ! r)[c := grid ! r ! c + d]]"
  from r have "r < length grid" by (rule resolve_less)
  moreover from c have "c < length (grid ! r)" by (rule resolve_less)
  ultimately show ?thesis
    unfolding g by (simp add: sum_list_map_update sum_list_update_real)
qed

lemma erode_totals:
  assumes "erode itime g nlat nlon a i0 xig yig xfg yfg detr (s, nhits) = Inr (s', nhits')"
    and "i0 < length (parcels s)"
  shows "source_total s' = source_total s + (chi (parcels s ! i0) - chi (parcels s' ! i0))"
    and "pl_total s' = pl_total s + (chi (parcels s ! i0) - chi (parcels s' ! i0))"
    and "chi_lost s' = chi_lost s + (chi (parcels s ! i0) - chi (parcels s' ! i0))"
proof -
  note new = erode_chi [OF assms]
  from assms(1) obtain source' r where
    cell: "add_cell (source s) (midpoint nlat yig yfg (yshift g)) (midpoint nlon xig xfg (xshift g))
       (chi (parcels s ! i0) - chi (parcels s ! i0) * exp (- 3600 * detr)) = Inr source'"
    and r: "r < length (pl s)"
    and src: "source s' = source'"
    and pl: "pl s' = (pl s)[r := pl s ! r + (chi (parcels s ! i0) - chi (parcels s ! i0) * exp (- 3600 * detr))]"
    and ps: "parcels s' = (parcels s)[i0 := parcels s' ! i0]"
    by (elim erode_Inr) (use assms(2) in \<open>auto dest: resolve_less\<close>)
  show "source_total s' = source_total s + (chi (parcels s ! i0) - chi (parcels s' ! i0))"
    using add_cell_total [OF cell] by (simp add: source_total_def src new)
  show "pl_total s' = pl_total s + (chi (parcels s ! i0) - chi (parcels s' ! i0))"
    using r by (simp add: pl_total_def pl new sum_list_update_real)
  have "chi_lost s' = sum_list (map (\<lambda>q. 1 - chi q) ((parcels s)[i0 := parcels s' ! i0]))"
    using ps by (simp add: chi_lost_def)
  also have "\<dots> = chi_lost s - (1 - chi (parcels s ! i0)) + (1 - chi (parcels s' ! i0))"
    using assms(2) by (simp add: sum_list_map_update chi_lost_def)
  finally show "chi_lost s' = chi_lost s + (chi (parcels s ! i0) - chi (parcels s' ! i0))"
    by simp
qed

lemma detrain_one_balanced:
  assumes "balanced s"
    and "detrain_one orgn itime g off nlat nlon a (s, nhits) = Inr (s', nhits')"
  shows "balanced s'"
  using assms(2)
proof (cases rule: detrain_one_cases)
  case same
  with assms(1) show ?thesis by simp
next
  case (eroded i0 xig yig xfg yfg detr)
  from eroded(1) have "i0 < length (parcels s)" by (rule resolve_less)
  from erode_totals [OF eroded(4) this] assms(1) show ?thesis
    by (simp add: balanced_def)
qed

lemma detrainer_balanced:
  assumes "balanced s" and "detrainer orgn itime rows g off s = Inr (s', nhits)"
  shows "balanced s'"
proof -
  from assms(2) obtain nlat nlon where
    run: "for_each (detrain_one orgn itime g off nlat nlon) rows (s, [0, 0, 0, 0, 0, 0]) = Inr (s', nhits)"
    by (auto simp: detrainer_def split: list.splits)
  have "balanced (fst (s', nhits))"
  proof (rule for_each_inv [where I = "\<lambda>x. balanced (fst x)", OF _ _ run])
    show "balanced (fst x) \<Longrightarrow> detrain_one orgn itime g off nlat nlon b x = Inr y \<Longrightarrow> balanced (fst y)"
      for b x y
      using detrain_one_balanced [of "fst x" orgn itime g off nlat nlon b "snd x" "fst y" "snd y"]
      by simp
    show "balanced (fst (s, [0, 0, 0, 0, 0, 0 :: int]))" using assms(1) by simp
  qed
  then show ?thesis by simp
qed

text \<open>The other handlers store neither into \<open>chi\<close> nor into the accumulators.\<close>

lemma same_chi_map: "list_all2 same_chi ps ps' \<Longrightarrow> map chi ps' = map chi ps"
  by (induction rule: list_all2_induct) (auto simp: same_chi_def)

lemma for_each_same_chi:
  assumes "\<And>a x y. body a x = Inr y \<Longrightarrow> list_all2 same_chi (sel x) (sel y)"
    and "for_each body as x = Inr y"
  shows "list_all2 same_chi (sel x) (sel y)"
proof (rule for_each_all2 [where R = same_chi and body = body])
  show "same_chi q q" for q by (simp add: same_chi_def)
  show "same_chi q q' \<Longrightarrow> same_chi q' q'' \<Longrightarrow> same_chi q q''" for q q' q''
    by (simp add: same_chi_def)
qed (use assms in auto)

lemma fold_same_chi:
  assumes "\<And>a ps. list_all2 same_chi ps (f a ps)"
  shows "list_all2 same_chi ps (fold f as ps)"
proof (rule fold_rel [where R = "list_all2 same_chi"])
  show "list_all2 same_chi s (f a s)" for a s by (rule assms)
  show "list_all2 same_chi s s" for s by (simp add: all2_refl same_chi_def)
  show "list_all2 same_chi s t \<Longrightarrow> list_all2 same_chi t u \<Longrightarrow> list_all2 same_chi s u" for s t u
    by (rule all2_trans [where R = same_chi]) (simp_all add: same_chi_def)
qed

lemma exiter_one_same_chi:
  "exiter_one orgn itime rr a (ps, n) = Inr (ps', n') \<Longrightarrow> list_all2 same_chi ps ps'"
  by (auto simp: exiter_one_def same_chi_def split: option.splits if_splits
      intro!: all2_update all2_refl)

lemma radada_one_same_chi:
  "radada_one orgn itime a (ps, n) = Inr (ps', n') \<Longrightarrow> list_all2 same_chi ps ps'"
  by (auto simp: radada_one_def same_chi_def split: option.splits if_splits
      intro!: all2_update all2_refl)

lemma age_one_same_chi: "list_all2 same_chi ps (age_one orgn itime a ps)"
  by (auto simp: age_one_def age_mark_def same_chi_def split: option.splits
      intro!: all2_update all2_refl)

lemma dborne_one_same_chi: "list_all2 same_chi ps (dborne_one orgn i ps)"
  by (auto simp: dborne_one_def same_chi_def split: option.splits intro!: all2_update all2_refl)

lemma exiter_same_chi:
  assumes "exiter orgn itime rows rr ps = Inr (ps', n)"
  shows "map chi ps' = map chi ps"
  using for_each_same_chi [where sel = fst and body = "exiter_one orgn itime rr",
      OF _ assms [unfolded exiter_def]] exiter_one_same_chi
  by (fastforce dest: same_chi_map)

lemma radada_same_chi:
  assumes "radada orgn itime rows ps = Inr (ps', n)"
  shows "map chi ps' = map chi ps"
  using for_each_same_chi [where sel = fst and body = "radada_one orgn itime",
      OF _ assms [unfolded radada_def]] radada_one_same_chi
  by (fastforce dest: same_chi_map)

lemma age_sweep_same_chi:
  assumes "age_sweep orgn age_bound itime rows ps = Inr ps'"
  shows "map chi ps' = map chi ps"
proof -
  from assms have "ps' = fold (age_one orgn itime) (filter (IIold_o orgn age_bound itime ps) rows) ps"
    by (simp add: age_sweep_def split: if_splits)
  then show ?thesis by (simp add: same_chi_map fold_same_chi age_one_same_chi)
qed

lemma deadborne_same_chi:
  assumes "deadborne orgn idx1 numpart_s idx_act ps = Inr ps'"
  shows "map chi ps' = map chi ps"
proof -
  from assms have "ps' = fold (dborne_one orgn)
      (filter (\<lambda>i. i \<notin> set idx_act) [idx1 .. numpart_s + orgn - 1]) ps"
    by (simp add: deadborne_def Let_def split: if_splits)
  then show ?thesis by (simp add: same_chi_map fold_same_chi dborne_one_same_chi)
qed

lemma step_other:
  assumes "step orgn ev s = Inr s'" and "\<not> is_Detrainer ev"
  shows "map chi (parcels s') = map chi (parcels s) \<and> source s' = source s \<and> pl s' = pl s"
proof (cases ev)
  case (Deadborne idx1 numpart_s idx_act)
  with assms(1) show ?thesis by (auto split: sum.splits dest: deadborne_same_chi)
next
  case (Exiter itime rows rr)
  with assms(1) show ?thesis by (auto split: sum.splits dest: exiter_same_chi)
next
  case (Radada itime rows)
  with assms(1) show ?thesis by (auto split: sum.splits dest: radada_same_chi)
next
  case (Detrainer itime rows g)
  with assms(2) show ?thesis by (simp add: is_Detrainer_def)
next
  case (AgeLimit age_bound itime rows)
  with assms(1) show ?thesis by (auto split: sum.splits dest: age_sweep_same_chi)
qed

lemma step_balanced:
  assumes "balanced s" and "step orgn ev s = Inr s'"
  shows "balanced s'"
proof (cases "is_Detrainer ev")
  case True
  then obtain itime rows g where "ev = Detrainer itime rows g"
    by (cases ev) (auto simp: is_Detrainer_def)
  with assms(2) obtain nhits where "detrainer orgn itime rows g main_detr_offset s = Inr (s', nhits)"
    by (auto split: sum.splits)
  with assms(1) show ?thesis by (rule detrainer_balanced)
next
  case False
  from step_other [OF assms(2) False] have "chi_lost s' = chi_lost s"
    "source_total s' = source_total s" "pl_total s' = pl_total s"
    unfolding chi_lost_def source_total_def pl_total_def
    by (simp_all add: map_map [symmetric, of "\<lambda>c. 1 - c" chi, unfolded comp_def] del: map_map)
  with assms(1) show ?thesis by (simp add: balanced_def)
qed

lemma prod0_balanced: "balanced (prod0 part0 nlat nlon nreg)"
proof -
  have "sum_list (map sum_list (replicate nlat (replicate nlon (0 :: real)))) = 0"
    by (simp add: sum_list_replicate)
  moreover have "sum_list (map (\<lambda>q. 1 - chi q) (map (\<lambda>q. q\<lparr>chi := 1, passed := 10, src := (\<lambda>k. None)\<rparr>) part0)) = 0"
    by (induction part0) auto
  ultimately show ?thesis
    by (simp add: balanced_def prod0_def source_total_def pl_total_def chi_lost_def
        sum_list_replicate)
qed

lemma run_balanced:
  assumes "run orgn evs (prod0 part0 nlat nlon nreg) = Inr s"
  shows "balanced s"
  using prod0_balanced assms unfolding run_def
  by (rule for_each_inv [rotated]) (rule step_balanced)

lemma detrain_one_deposit:
  assumes "detrain_one orgn itime g off nlat nlon a (t, nhits) = Inr (t', nhits')"
  shows "t' = t \<or>
    (\<exists>i0 xig yig xfg yfg code r c k.
       resolve (length (parcels t)) (sl_idx_back a - orgn) = Some i0 \<and>
       to_grid (sl_xi a) (Lo1 g) (dlo g) = Inr xig \<and> to_grid (sl_yi a) (La1 g) (dla g) = Inr yig \<and>
       to_grid (sl_xf a) (Lo1 g) (dlo g) = Inr xfg \<and> to_grid (sl_yf a) (La1 g) (dla g) = Inr yfg \<and>
       resolve (length (source t)) (midpoint nlat yig yfg (yshift g)) = Some r \<and>
       resolve (length (source t ! r)) (midpoint nlon xig xfg (xshift g)) = Some c \<and>
       mask g (midpoint nlat yig yfg (yshift g)) (midpoint nlon xig xfg (xshift g)) = Some code \<and>
       resolve (length (pl t)) code = Some k \<and>
       source t' = (source t)[r := (source t ! r)
          [c := source t ! r ! c + (chi (parcels t ! i0) - chi (parcels t' ! i0))]] \<and>
       pl t' = (pl t)[k := pl t ! k + (chi (parcels t ! i0) - chi (parcels t' ! i0))] \<and>
       (\<forall>j < length (parcels t). j \<noteq> i0 \<longrightarrow> parcels t' ! j = parcels t ! j))"
  using assms
proof (cases rule: detrain_one_cases)
  case same
  then show ?thesis by simp
next
  case (eroded i0 xig yig xfg yfg detr)
  from eroded(1) have i0: "i0 < length (parcels t)" by (rule resolve_less)
  note new = erode_chi [OF eroded(4) i0]
  from eroded(4) show ?thesis
  proof (rule erode_Inr)
    fix source' code k
    assume cell: "add_cell (source t) (midpoint nlat yig yfg (yshift g))
         (midpoint nlon xig xfg (xshift g))
         (chi (parcels t ! i0) - chi (parcels t ! i0) * exp (- 3600 * detr)) = Inr source'"
      and code: "mask g (midpoint nlat yig yfg (yshift g)) (midpoint nlon xig xfg (xshift g)) = Some code"
      and k: "resolve (length (pl t)) code = Some k"
      and t': "t' = t\<lparr>parcels := (parcels t)[i0 :=
              fst (ratchet itime a ((parcels t ! i0)\<lparr>chi := chi (parcels t ! i0) * exp (- 3600 * detr)\<rparr>, nhits))],
            source := source',
            pl := (pl t)[k := pl t ! k + (chi (parcels t ! i0) - chi (parcels t ! i0) * exp (- 3600 * detr))]\<rparr>"
    from cell obtain r c where
      r: "resolve (length (source t)) (midpoint nlat yig yfg (yshift g)) = Some r"
      and c: "resolve (length (source t ! r)) (midpoint nlon xig xfg (xshift g)) = Some c"
      and grid: "source' = (source t)[r := (source t ! r)
          [c := source t ! r ! c + (chi (parcels t ! i0) - chi (parcels t ! i0) * exp (- 3600 * detr))]]"
      by (rule add_cell_cases)
    have src: "source t' = (source t)[r := (source t ! r)
          [c := source t ! r ! c + (chi (parcels t ! i0) - chi (parcels t' ! i0))]]"
      unfolding new by (simp add: t' grid)
    have pl: "pl t' = (pl t)[k := pl t ! k + (chi (parcels t ! i0) - chi (parcels t' ! i0))]"
      unfolding new by (simp add: t')
    have rest: "\<forall>j < length (parcels t). j \<noteq> i0 \<longrightarrow> parcels t' ! j = parcels t ! j"
      by (simp add: t')
    show ?thesis
    proof (intro disjI2 exI conjI)
      show "resolve (length (parcels t)) (sl_idx_back a - orgn) = Some i0" by (rule eroded(1))
      show "to_grid (sl_xi a) (Lo1 g) (dlo g) = Inr xig" by (rule eroded(5))
      show "to_grid (sl_yi a) (La1 g) (dla g) = Inr yig" by (rule eroded(6))
      show "to_grid (sl_xf a) (Lo1 g) (dlo g) = Inr xfg" by (rule eroded(7))
      show "to_grid (sl_yf a) (La1 g) (dla g) = Inr yfg" by (rule eroded(8))
      show "resolve (length (source t)) (midpoint nlat yig yfg (yshift g)) = Some r" by (rule r)
      show "resolve (length (source t ! r)) (midpoint nlon xig xfg (xshift g)) = Some c" by (rule c)
      show "mask g (midpoint nlat yig yfg (yshift g)) (midpoint nlon xig xfg (xshift g)) = Some code"
        by (rule code)
      show "resolve (length (pl t)) code = Some k" by (rule k)
      show "source t' = (source t)[r := (source t ! r)
          [c := source t ! r ! c + (chi (parcels t ! i0) - chi (parcels t' ! i0))]]" by (rule src)
      show "pl t' = (pl t)[k := pl t ! k + (chi (parcels t ! i0) - chi (parcels t' ! i0))]"
        by (rule pl)
      show "\<forall>j < length (parcels t). j \<noteq> i0 \<longrightarrow> parcels t' ! j = parcels t ! j" by (rule rest)
    qed
  qed
qed

text \<open>
  Claim C4. In every state that a run reaches, the sum of the grid \<open>source\<close>
  and the sum of the regional vector \<open>pl\<close> each equal the sum over the parcels
  of \<open>1 - chi\<close>, the initial \<open>chi\<close> less the current one. For, each time the
  body of \<open>detrainer\<close>'s loop changes the tables, it adds the decrement
  \<open>chi_old - chi_new\<close> of one parcel to one cell of \<open>source\<close>, the midpoint cell
  of the path, and to one entry of \<open>pl\<close>, the region of that cell in the
  mask, and leaves every other parcel as it is; and no other operation of
  the run changes a \<open>chi\<close>, \<open>source\<close> or \<open>pl\<close>.
\<close>

theorem mass_conservation:
  "(run orgn evs (prod0 part0 nlat0 nlon0 nreg) = Inr s \<longrightarrow>
      source_total s = chi_lost s \<and> pl_total s = chi_lost s) \<and>
   (detrain_one orgn itime g off nlat nlon a (t, nhits) = Inr (t', nhits') \<longrightarrow>
      t' = t \<or>
      (\<exists>i0 xig yig xfg yfg code r c k.
         resolve (length (parcels t)) (sl_idx_back a - orgn) = Some i0 \<and>
         to_grid (sl_xi a) (Lo1 g) (dlo g) = Inr xig \<and> to_grid (sl_yi a) (La1 g) (dla g) = Inr yig \<and>
         to_grid (sl_xf a) (Lo1 g) (dlo g) = Inr xfg \<and> to_grid (sl_yf a) (La1 g) (dla g) = Inr yfg \<and>
         resolve (length (source t)) (midpoint nlat yig yfg (yshift g)) = Some r \<and>
         resolve (length (source t ! r)) (midpoint nlon xig xfg (xshift g)) = Some c \<and>
         mask g (midpoint nlat yig yfg (yshift g)) (midpoint nlon xig xfg (xshift g)) = Some code \<and>
         resolve (length (pl t)) code = Some k \<and>
         source t' = (source t)[r := (source t ! r)
            [c := source t ! r ! c + (chi (parcels t ! i0) - chi (parcels t' ! i0))]] \<and>
         pl t' = (pl t)[k := pl t ! k + (chi (parcels t ! i0) - chi (parcels t' ! i0))] \<and>
         (\<forall>j < length (parcels t). j \<noteq> i0 \<longrightarrow> parcels t' ! j = parcels t ! j))) \<and>
   (step orgn ev u = Inr u' \<and> \<not> is_Detrainer ev \<longrightarrow>
      map chi (parcels u') = map chi (parcels u) \<and> source u' = source u \<and> pl u' = pl u)"
proof (intro conjI impI)
  assume "run orgn evs (prod0 part0 nlat0 nlon0 nreg) = Inr s"
  then have "balanced s" by (rule run_balanced)
  then show "source_total s = chi_lost s" "pl_total s = chi_lost s"
    by (simp_all add: balanced_def)
next
  assume "detrain_one orgn itime g off nlat nlon a (t, nhits) = Inr (t', nhits')"
  then show "t' = t \<or>
      (\<exists>i0 xig yig xfg yfg code r c k.
         resolve (length (parcels t)) (sl_idx_back a - orgn) = Some i0 \<and>
         to_grid (sl_xi a) (Lo1 g) (dlo g) = Inr xig \<and> to_grid (sl_yi a) (La1 g) (dla g) = Inr yig \<and>
         to_grid (sl_xf a) (Lo1 g) (dlo g) = Inr xfg \<and> to_grid (sl_yf a) (La1 g) (dla g) = Inr yfg \<and>
         resolve (length (source t)) (midpoint nlat yig yfg (yshift g)) = Some r \<and>
         resolve (length (source t ! r)) (midpoint nlon xig xfg (xshift g)) = Some c \<and>
         mask g (midpoint nlat yig yfg (yshift g)) (midpoint nlon xig xfg (xshift g)) = Some code \<and>
         resolve (length (pl t)) code = Some k \<and>
         source t' = (source t)[r := (source t ! r)
            [c := source t ! r ! c + (chi (parcels t ! i0) - chi (parcels t' ! i0))]] \<and>
         pl t' = (pl t)[k := pl t ! k + (chi (parcels t ! i0) - chi (parcels t' ! i0))] \<and>
         (\<forall>j < length (parcels t). j \<noteq> i0 \<longrightarrow> parcels t' ! j = parcels t ! j))"
    by (rule detrain_one_deposit)
next
  assume "step orgn ev u = Inr u' \<and> \<not> is_Detrainer ev"
  then show "map chi (parcels u') = map chi (parcels u)" "source u' = source u" "pl u' = pl u"
    using step_other [of orgn ev u u'] by simp_all
qed

theorem mass_conservation_witness:
  "run 0 [event1] tables0 = Inr tables1 \<and>
   source_total tables1 = 1 - exp (- 36) \<and> pl_total tables1 = 1 - exp (- 36) \<and>
   chi_lost tables1 = 1 - exp (- 36) \<and>
   detrain_one 0 0 (uniform (1 / 100)) main_detr_offset 2 3 slice0 (tables0, nhits0)
     = Inr (tables1, [0, 1, 1, 1, 1, 1]) \<and>
   (\<exists>r c k. source tables1 = (source tables0)[r := (source tables0 ! r)
        [c := source tables0 ! r ! c + (chi (parcels tables0 ! 0) - chi (parcels tables1 ! 0))]] \<and>
      pl tables1 = (pl tables0)[k := pl tables0 ! k + (chi (parcels tables0 ! 0) - chi (parcels tables1 ! 0))]) \<and>
   step 0 event2 tables1 = Inr tables2 \<and>
   map chi (parcels tables2) = map chi (parcels tables1) \<and>
   source tables2 = source tables1 \<and> pl tables2 = pl tables1"
proof -
  have r1: "run 0 [event1] (prod0 [parcel0] 2 3 0) = Inr tables1"
    using step1 by (simp add: run_def tables0_def)
  have e2: "step 0 event2 tables1 = Inr tables2 \<and> \<not> is_Detrainer event2"
    by (simp add: is_Detrainer_def event2_def [symmetric] step2) (simp add: event2_def)
  have lost: "chi_lost tables1 = 1 - exp (- 36)"
    by (simp add: chi_lost_def tables1_def parcel1_def)
  have ne: "tables1 \<noteq> tables0"
  proof
    assume "tables1 = tables0"
    then have "chi (parcels tables1 ! 0) = chi (parcels tables0 ! 0)" by simp
    then have "exp (- 36 :: real) = 1" by (simp add: tables1_def tables0_eq parcel1_def parcel0_def)
    with exp_m36 show False by simp
  qed
  note mc = mass_conservation [where orgn = 0 and evs = "[event1]" and ?part0.0 = "[parcel0]"
      and ?nlat0.0 = 2 and ?nlon0.0 = 3 and nreg = 0 and s = tables1
      and itime = 0 and g = "uniform (1 / 100)" and off = main_detr_offset and nlat = 2 and nlon = 3
      and a = slice0 and t = tables0 and nhits = nhits0 and t' = tables1
      and nhits' = "[0, 1, 1, 1, 1, 1]" and ev = event2 and u = tables1 and u' = tables2]
  from mc r1 have A: "source_total tables1 = chi_lost tables1 \<and> pl_total tables1 = chi_lost tables1"
    by blast
  from mc e2 have C: "map chi (parcels tables2) = map chi (parcels tables1) \<and>
      source tables2 = source tables1 \<and> pl tables2 = pl tables1"
    by blast
  from mc detrain1 ne obtain i0 r c k where
    i0: "resolve (length (parcels tables0)) (sl_idx_back slice0 - 0) = Some i0"
    and B: "source tables1 = (source tables0)[r := (source tables0 ! r)
        [c := source tables0 ! r ! c + (chi (parcels tables0 ! i0) - chi (parcels tables1 ! i0))]]"
      "pl tables1 = (pl tables0)[k := pl tables0 ! k + (chi (parcels tables0 ! i0) - chi (parcels tables1 ! i0))]"
    by blast
  from i0 have "i0 = 0" by (simp add: tables0_eq slice0_def resolve_def)
  with B have B': "\<exists>r c k. source tables1 = (source tables0)[r := (source tables0 ! r)
        [c := source tables0 ! r ! c + (chi (parcels tables0 ! 0) - chi (parcels tables1 ! 0))]] \<and>
      pl tables1 = (pl tables0)[k := pl tables0 ! k + (chi (parcels tables0 ! 0) - chi (parcels tables1 ! 0))]"
    by blast
  from r1 have "run 0 [event1] tables0 = Inr tables1" by (simp add: tables0_def)
  with A B' C e2 lost detrain1 show ?thesis by simp
qed

subsection \<open>The ratchet\<close>

lemma ratchet_refines:
  assumes "passed q \<in> rungs"
  shows "ratchet itime a (q, nhits) = ratchet_spec itime a (q, nhits)"
proof -
  have unfold: "ratchet_spec itime a (q', n') =
     (if passed q' \<in> {10, 9, 7, 5, 3} \<and> chi q' < rung_threshold (passed q')
      then ratchet_spec itime a
             ((archive_rung (rung_slot (passed q')) itime a q')
                \<lparr>flag := (if passed q' = 10 then flag q' OR I_HIT else flag q'),
                 passed := rung_below (passed q')\<rparr>,
              n'[rung_slot (passed q') := n' ! rung_slot (passed q') + 1])
      else (q', n'))" for q' n'
    by (rule ratchet_spec.simps)
  from assms consider "passed q = 10" | "passed q = 9" | "passed q = 7" | "passed q = 5"
    | "passed q = 3" | "passed q = 1"
    by (auto simp: rungs_def)
  then show ?thesis
    by cases
      (simp_all add: ratchet_def rung1_def rung_def unfold rung_threshold_def rung_below_def
        rung_slot_def archive_rung_def archive_def)
qed

lemma hit_keeps_dead: "(f OR I_HIT) AND I_DEAD = f AND I_DEAD"
  by (simp add: bit.conj_disj_distrib2 I_HIT_def I_DEAD_def)

lemma rung_flag: "flag (fst (rung k from thr to itime a x)) = flag (fst x)"
  by (cases x) (simp add: rung_def archive_rung_def archive_def)

lemma ratchet_flag:
  "flag (fst (ratchet itime a (q, nhits))) =
     (if passed q = 10 \<and> chi q < 9 / 10 then flag q OR I_HIT else flag q)"
  by (simp add: ratchet_def rung_flag) (simp add: rung1_def archive_rung_def archive_def)

text \<open>
  Claim C5. In every state that a run reaches the ratchet \<open>passed\<close> of every
  parcel is one of 10, 9, 7, 5, 3, 1, and from every such state on it never
  climbs. Within one slice the code's five tests are the descending cascade of
  the specification (\<open>ratchet_spec\<close>: a rung is left only when \<open>chi\<close> is below
  its threshold, the slots 1 to 5 are filled in that order, and the hit
  counter of each rung left is incremented). Leaving the first rung, from 10
  to 9, sets \<open>I_HIT\<close> and leaves the \<open>I_DEAD\<close> bit as it was; nothing else in
  the ratchet changes the flag.
\<close>

theorem ratchet_cascade:
  "(run orgn evs (prod0 part0 nlat nlon nreg) = Inr s \<longrightarrow>
      (\<forall>q \<in> set (parcels s). passed q \<in> {10, 9, 7, 5, 3, 1})) \<and>
   (run orgn evs (prod0 part0 nlat nlon nreg) = Inr s \<and> run orgn evs' s = Inr s' \<longrightarrow>
      (\<forall>j < length (parcels s). passed (parcels s' ! j) \<le> passed (parcels s ! j))) \<and>
   (passed q \<in> {10, 9, 7, 5, 3, 1} \<longrightarrow>
      ratchet itime a (q, nhits) = ratchet_spec itime a (q, nhits)) \<and>
   (passed q = 10 \<and> chi q < 9 / 10 \<longrightarrow>
      flag (fst (ratchet itime a (q, nhits))) = flag q OR I_HIT \<and>
      flag (fst (ratchet itime a (q, nhits))) AND I_DEAD = flag q AND I_DEAD) \<and>
   (\<not> (passed q = 10 \<and> chi q < 9 / 10) \<longrightarrow>
      flag (fst (ratchet itime a (q, nhits))) = flag q)"
proof (intro conjI impI ballI allI)
  fix p assume r: "run orgn evs (prod0 part0 nlat nlon nreg) = Inr s" and "p \<in> set (parcels s)"
  then obtain i where i: "i < length (parcels s)" and p: "p = parcels s ! i"
    by (auto simp: in_set_conv_nth)
  from reachable_parcel [OF r i] show "passed p \<in> {10, 9, 7, 5, 3, 1}"
    by (simp add: p rungs_def)
next
  fix j assume a: "run orgn evs (prod0 part0 nlat nlon nreg) = Inr s \<and> run orgn evs' s = Inr s'"
    and j: "j < length (parcels s)"
  from a have "run orgn evs' s = Inr s'" by simp
  then have all2: "list_all2 evolves (parcels s) (parcels s')" by (rule run_evolves)
  from a have "run orgn evs (prod0 part0 nlat nlon nreg) = Inr s" by simp
  from reachable_parcel [OF this j] have "passed (parcels s ! j) \<in> rungs" by simp
  with all2_nth [OF all2 j] show "passed (parcels s' ! j) \<le> passed (parcels s ! j)"
    by (simp add: evolves_def)
next
  assume "passed q \<in> {10, 9, 7, 5, 3, 1}"
  then show "ratchet itime a (q, nhits) = ratchet_spec itime a (q, nhits)"
    by (intro ratchet_refines) (simp add: rungs_def)
next
  assume "passed q = 10 \<and> chi q < 9 / 10"
  then show "flag (fst (ratchet itime a (q, nhits))) = flag q OR I_HIT"
    "flag (fst (ratchet itime a (q, nhits))) AND I_DEAD = flag q AND I_DEAD"
    by (simp_all add: ratchet_flag hit_keeps_dead)
next
  assume "\<not> (passed q = 10 \<and> chi q < 9 / 10)"
  then show "flag (fst (ratchet itime a (q, nhits))) = flag q"
    unfolding ratchet_flag by (rule if_not_P)
qed

theorem ratchet_cascade_witness:
  "run 0 [event1] tables0 = Inr tables1 \<and> run 0 [event2, event3] tables1 = Inr tables2 \<and>
   passed (parcels tables1 ! 0) \<in> {10, 9, 7, 5, 3, 1} \<and>
   passed (parcels tables2 ! 0) \<le> passed (parcels tables1 ! 0) \<and>
   ratchet 0 slice0 (parcel0\<lparr>chi := exp (- 36)\<rparr>, nhits0) = (parcel1, [0, 1, 1, 1, 1, 1]) \<and>
   ratchet_spec 0 slice0 (parcel0\<lparr>chi := exp (- 36)\<rparr>, nhits0) = (parcel1, [0, 1, 1, 1, 1, 1]) \<and>
   flag parcel1 = flag parcel0 OR I_HIT \<and> flag parcel1 AND I_DEAD = flag parcel0 AND I_DEAD \<and>
   flag (fst (ratchet 0 slice0 (parcel0, nhits0))) = flag parcel0"
proof -
  have r1: "run 0 [event1] (prod0 [parcel0] 2 3 0) = Inr tables1"
    using step1 by (simp add: run_def tables0_def)
  have r2: "run 0 [event2, event3] tables1 = Inr tables2" by (simp add: run_def step2 step3)
  have small: "exp (- 36 :: real) < 9 / 10" using exp_m36 by simp
  have h3: "passed (parcel0\<lparr>chi := exp (- 36)\<rparr>) \<in> {10, 9, 7, 5, 3, 1}"
    by (simp add: parcel0_def)
  have h4: "passed (parcel0\<lparr>chi := exp (- 36)\<rparr>) = 10 \<and> chi (parcel0\<lparr>chi := exp (- 36)\<rparr>) < 9 / 10"
    using small by (simp add: parcel0_def)
  have h5: "\<not> (passed parcel0 = 10 \<and> chi parcel0 < 9 / 10)"
    by (simp add: parcel0_def)
  note rc = ratchet_cascade [where orgn = 0 and evs = "[event1]" and ?part0.0 = "[parcel0]"
      and nlat = 2 and nlon = 3 and nreg = 0 and s = tables1 and evs' = "[event2, event3]"
      and s' = tables2 and itime = 0 and a = slice0 and nhits = nhits0]
  note rc1 = rc [where q = "parcel0\<lparr>chi := exp (- 36)\<rparr>"]
  from rc1 r1 have "\<forall>q \<in> set (parcels tables1). passed q \<in> {10, 9, 7, 5, 3, 1}" by blast
  then have A1: "passed (parcels tables1 ! 0) \<in> {10, 9, 7, 5, 3, 1}"
    by (simp add: tables1_def)
  from rc1 r1 r2 have "\<forall>j < length (parcels tables1).
      passed (parcels tables2 ! j) \<le> passed (parcels tables1 ! j)" by blast
  then have A2: "passed (parcels tables2 ! 0) \<le> passed (parcels tables1 ! 0)"
    by (simp add: tables1_def)
  from rc1 h3 have "ratchet 0 slice0 (parcel0\<lparr>chi := exp (- 36)\<rparr>, nhits0)
      = ratchet_spec 0 slice0 (parcel0\<lparr>chi := exp (- 36)\<rparr>, nhits0)" by blast
  with ratchet1 have A3: "ratchet_spec 0 slice0 (parcel0\<lparr>chi := exp (- 36)\<rparr>, nhits0)
      = (parcel1, [0, 1, 1, 1, 1, 1])" by simp
  from rc1 h4 have "flag (fst (ratchet 0 slice0 (parcel0\<lparr>chi := exp (- 36)\<rparr>, nhits0)))
        = flag (parcel0\<lparr>chi := exp (- 36)\<rparr>) OR I_HIT \<and>
      flag (fst (ratchet 0 slice0 (parcel0\<lparr>chi := exp (- 36)\<rparr>, nhits0))) AND I_DEAD
        = flag (parcel0\<lparr>chi := exp (- 36)\<rparr>) AND I_DEAD" by blast
  then have A4: "flag parcel1 = flag parcel0 OR I_HIT \<and> flag parcel1 AND I_DEAD = flag parcel0 AND I_DEAD"
    by (simp add: ratchet1 hit_keeps_dead)
  from rc [where q = parcel0] h5
  have A5: "flag (fst (ratchet 0 slice0 (parcel0, nhits0))) = flag parcel0" by blast
  from r1 have "run 0 [event1] tables0 = Inr tables1" by (simp add: tables0_def)
  with r2 A1 A2 A3 A4 A5 ratchet1 show ?thesis by blast
qed

section \<open>The age limit and the ages in the archive: proofs\<close>

lemma length_age_one [simp]: "length (age_one orgn itime a ps) = length ps"
  by (simp add: age_one_def split: option.splits)

lemma distinct_map_filter': "distinct (map f xs) \<Longrightarrow> distinct (map f (filter P xs))"
  by (induction xs) auto

text \<open>
  The stores of the sweep, over rows that lie in different columns of the
  table: the column of a row receives the mark of that row, every other column
  is left alone.
\<close>

lemma fold_age_one:
  assumes "distinct (map (\<lambda>b. resolve n (row_idx_back b - orgn)) rows)"
    and "length ps = n"
  shows "length (fold (age_one orgn itime) rows ps) = n \<and>
     (\<forall>b \<in> set rows. \<forall>i. resolve n (row_idx_back b - orgn) = Some i \<longrightarrow>
        fold (age_one orgn itime) rows ps ! i = age_mark itime b (ps ! i)) \<and>
     (\<forall>i. (\<forall>b \<in> set rows. resolve n (row_idx_back b - orgn) \<noteq> Some i) \<longrightarrow>
        fold (age_one orgn itime) rows ps ! i = ps ! i)"
  using assms
proof (induction rows arbitrary: ps)
  case Nil
  then show ?case by simp
next
  case (Cons c rows)
  define ps1 where "ps1 = age_one orgn itime c ps"
  have len1: "length ps1 = n" using Cons.prems(2) by (simp add: ps1_def)
  from Cons.prems(1) have d: "distinct (map (\<lambda>b. resolve n (row_idx_back b - orgn)) rows)"
    and c: "\<forall>b \<in> set rows. resolve n (row_idx_back b - orgn) \<noteq> resolve n (row_idx_back c - orgn)"
    by (auto simp: image_iff)
  note IH = Cons.IH [OF d len1]
  have other: "ps1 ! i = ps ! i" if "resolve n (row_idx_back c - orgn) \<noteq> Some i" for i
    using that Cons.prems(2) by (auto simp: ps1_def age_one_def split: option.splits)
  have own: "ps1 ! i = age_mark itime c (ps ! i)" if "resolve n (row_idx_back c - orgn) = Some i" for i
    using that Cons.prems(2) resolve_less [OF that] by (simp add: ps1_def age_one_def)
  have f: "age_one orgn itime c ps = ps1"
    by (simp add: ps1_def)
  show ?case
  proof (intro conjI ballI allI impI)
    show "length (fold (age_one orgn itime) (c # rows) ps) = n" using IH by (simp add: f)
  next
    fix b i
    assume b: "b \<in> set (c # rows)" and i: "resolve n (row_idx_back b - orgn) = Some i"
    show "fold (age_one orgn itime) (c # rows) ps ! i = age_mark itime b (ps ! i)"
    proof (cases "b \<in> set rows")
      case True
      with c i have "resolve n (row_idx_back c - orgn) \<noteq> Some i" by force
      with IH True i show ?thesis by (simp add: f other)
    next
      case False
      with b have bc: "b = c" by simp
      with False i Cons.prems(1) have "\<forall>b' \<in> set rows. resolve n (row_idx_back b' - orgn) \<noteq> Some i"
        by force
      with IH have "fold (age_one orgn itime) rows ps1 ! i = ps1 ! i" by blast
      with i bc show ?thesis by (simp add: f own)
    qed
  next
    fix i
    assume "\<forall>b \<in> set (c # rows). resolve n (row_idx_back b - orgn) \<noteq> Some i"
    then have "resolve n (row_idx_back c - orgn) \<noteq> Some i"
      and "\<forall>b \<in> set rows. resolve n (row_idx_back b - orgn) \<noteq> Some i"
      by simp_all
    with IH show "fold (age_one orgn itime) (c # rows) ps ! i = ps ! i"
      by (simp add: f other)
  qed
qed

lemma or_and_part: "(m :: int) AND d = d \<Longrightarrow> (f OR m) AND d = d"
  by (auto simp: bit_eq_iff bit_and_iff bit_or_iff)

lemma old_dead_bits:
  "(f OR (I_DEAD + I_OLD)) AND I_DEAD = I_DEAD" "(f OR (I_DEAD + I_OLD)) AND I_OLD = I_OLD"
  "I_DEAD \<noteq> 0" "I_OLD \<noteq> 0"
  by (simp_all add: or_and_part I_DEAD_def I_OLD_def)

lemma age_sweep_Inr:
  assumes "\<forall>b \<in> set rows. resolve (length ps) (row_idx_back b - orgn) \<noteq> None"
  shows "age_sweep orgn age_bound itime rows ps =
     Inr (fold (age_one orgn itime) (filter (IIold_o orgn age_bound itime ps) rows) ps)"
  using assms by (auto simp: age_sweep_def list_ex_iff)

subsection \<open>The age limit\<close>

text \<open>
  Claim C6, as the code has it. Take the rows of the older snapshot, each in a
  column of its own of the parcel table. The sweep marks the parcel of a row
  exactly when no bit of \<open>I_STOP = I_HIT + I_DEAD\<close> is set in its flag (the
  parcel is neither dead nor hit) and its age \<open>ir_start - itime\<close> exceeds
  \<open>(age_bound - 0.25)\<close> days, so whenever it exceeds \<open>age_bound\<close> days. Such a
  parcel gets \<open>I_DEAD\<close> and \<open>I_OLD\<close> set, and slot 0 receives the row's current
  position, pressure and temperature and the age in days. Every other parcel
  of the snapshot is left as it is.
\<close>

theorem age_limit_sweep:
  assumes "distinct (map (\<lambda>b. resolve (length ps) (row_idx_back b - orgn)) rows)"
    and "\<forall>b \<in> set rows. resolve (length ps) (row_idx_back b - orgn) \<noteq> None"
    and "a \<in> set rows"
    and "resolve (length ps) (row_idx_back a - orgn) = Some i0"
  shows "\<exists>ps'. age_sweep orgn age_bound itime rows ps = Inr ps' \<and> length ps' = length ps \<and>
     (flag (ps ! i0) AND I_STOP = 0 \<and>
      real_of_int (ir_start (ps ! i0) - itime) > (age_bound - 1 / 4) * 86400 \<longrightarrow>
        flag (ps' ! i0) = flag (ps ! i0) OR (I_DEAD + I_OLD) \<and>
        flag (ps' ! i0) AND I_DEAD \<noteq> 0 \<and> flag (ps' ! i0) AND I_OLD \<noteq> 0 \<and>
        src (ps' ! i0) 0 = Some \<lparr>src_x = row_x a, src_y = row_y a, src_p = row_p a, src_t = row_t a,
           src_age = real_of_int (ir_start (ps ! i0) - itime) / 86400\<rparr>) \<and>
     (\<not> (flag (ps ! i0) AND I_STOP = 0 \<and>
         real_of_int (ir_start (ps ! i0) - itime) > (age_bound - 1 / 4) * 86400) \<longrightarrow>
        ps' ! i0 = ps ! i0) \<and>
     (flag (ps ! i0) AND I_STOP = 0 \<and>
      real_of_int (ir_start (ps ! i0) - itime) > age_bound * 86400 \<longrightarrow>
        flag (ps' ! i0) AND I_DEAD \<noteq> 0 \<and> flag (ps' ! i0) AND I_OLD \<noteq> 0)"
proof -
  define sel where "sel = filter (IIold_o orgn age_bound itime ps) rows"
  define ps' where "ps' = fold (age_one orgn itime) sel ps"
  have ret: "age_sweep orgn age_bound itime rows ps = Inr ps'"
    using assms(2) by (simp add: age_sweep_Inr ps'_def sel_def)
  have "distinct (map (\<lambda>b. resolve (length ps) (row_idx_back b - orgn)) sel)"
    unfolding sel_def using assms(1) by (rule distinct_map_filter')
  from fold_age_one [OF this refl, of itime]
  have len: "length ps' = length ps"
    unfolding ps'_def by blast
  from fold_age_one [OF \<open>distinct (map (\<lambda>b. resolve (length ps) (row_idx_back b - orgn)) sel)\<close> refl,
      of itime]
  have hit: "\<And>b i. b \<in> set sel \<Longrightarrow> resolve (length ps) (row_idx_back b - orgn) = Some i \<Longrightarrow>
        ps' ! i = age_mark itime b (ps ! i)"
    and miss: "\<And>i. (\<forall>b \<in> set sel. resolve (length ps) (row_idx_back b - orgn) \<noteq> Some i) \<Longrightarrow>
        ps' ! i = ps ! i"
    unfolding ps'_def by blast+
  have old: "IIold_o orgn age_bound itime ps a \<longleftrightarrow>
      real_of_int (ir_start (ps ! i0) - itime) > (age_bound - 1 / 4) * 86400 \<and>
      flag (ps ! i0) AND I_STOP = 0"
    using assms(4) by (simp add: IIold_o_def)
  have marked: "ps' ! i0 = age_mark itime a (ps ! i0)"
    if "flag (ps ! i0) AND I_STOP = 0"
      "real_of_int (ir_start (ps ! i0) - itime) > (age_bound - 1 / 4) * 86400"
  proof -
    from that old assms(3) have "a \<in> set sel" by (simp add: sel_def)
    from hit [OF this assms(4)] show ?thesis .
  qed
  have left: "ps' ! i0 = ps ! i0"
    if "\<not> (flag (ps ! i0) AND I_STOP = 0 \<and>
         real_of_int (ir_start (ps ! i0) - itime) > (age_bound - 1 / 4) * 86400)"
  proof (rule miss, rule ballI)
    fix b assume b: "b \<in> set sel"
    show "resolve (length ps) (row_idx_back b - orgn) \<noteq> Some i0"
    proof
      assume "resolve (length ps) (row_idx_back b - orgn) = Some i0"
      with b have "IIold_o orgn age_bound itime ps b"
        and "resolve (length ps) (row_idx_back b - orgn) = Some i0"
        by (simp_all add: sel_def)
      then have "real_of_int (ir_start (ps ! i0) - itime) > (age_bound - 1 / 4) * 86400 \<and>
          flag (ps ! i0) AND I_STOP = 0"
        by (simp add: IIold_o_def)
      with that show False by simp
    qed
  qed
  show ?thesis
  proof (intro exI [of _ ps'] conjI impI)
    show "age_sweep orgn age_bound itime rows ps = Inr ps'" by (rule ret)
  next
    show "length ps' = length ps" by (rule len)
  next
    assume "flag (ps ! i0) AND I_STOP = 0 \<and>
      real_of_int (ir_start (ps ! i0) - itime) > (age_bound - 1 / 4) * 86400"
    then have m: "ps' ! i0 = age_mark itime a (ps ! i0)" by (simp add: marked)
    show "flag (ps' ! i0) = flag (ps ! i0) OR (I_DEAD + I_OLD)"
      "flag (ps' ! i0) AND I_DEAD \<noteq> 0" "flag (ps' ! i0) AND I_OLD \<noteq> 0"
      "src (ps' ! i0) 0 = Some \<lparr>src_x = row_x a, src_y = row_y a, src_p = row_p a, src_t = row_t a,
           src_age = real_of_int (ir_start (ps ! i0) - itime) / 86400\<rparr>"
      unfolding m by (simp_all add: age_mark_def archive_def old_dead_bits)
  next
    assume "\<not> (flag (ps ! i0) AND I_STOP = 0 \<and>
         real_of_int (ir_start (ps ! i0) - itime) > (age_bound - 1 / 4) * 86400)"
    then show "ps' ! i0 = ps ! i0" by (rule left)
  next
    assume a: "flag (ps ! i0) AND I_STOP = 0 \<and>
      real_of_int (ir_start (ps ! i0) - itime) > age_bound * 86400"
    then have "real_of_int (ir_start (ps ! i0) - itime) > (age_bound - 1 / 4) * 86400"
      by (simp add: algebra_simps)
    with a have m: "ps' ! i0 = age_mark itime a (ps ! i0)" by (simp add: marked)
    show "flag (ps' ! i0) AND I_DEAD \<noteq> 0" "flag (ps' ! i0) AND I_OLD \<noteq> 0"
      unfolding m by (simp_all add: age_mark_def archive_def old_dead_bits)
  qed
qed

lemma singleton_nth: "length xs = 1 \<Longrightarrow> xs ! 0 = v \<Longrightarrow> xs = [v]"
  by (cases xs) auto

theorem age_limit_sweep_witness:
  "(\<exists>ps'. age_sweep 0 44 (- 4000000) [row0] [parcel0] = Inr ps' \<and>
      flag (ps' ! 0) = 10485760 \<and> flag (ps' ! 0) AND I_DEAD \<noteq> 0 \<and> flag (ps' ! 0) AND I_OLD \<noteq> 0 \<and>
      src (ps' ! 0) 0 = Some \<lparr>src_x = 2, src_y = 1, src_p = 10000, src_t = 200,
         src_age = 4000000 / 86400\<rparr>) \<and>
   age_sweep 0 44 (- 3600) [row0] [parcel0] = Inr [parcel0]"
proof -
  have pre: "distinct (map (\<lambda>b. resolve (length [parcel0]) (row_idx_back b - 0)) [row0])"
    "\<forall>b \<in> set [row0]. resolve (length [parcel0]) (row_idx_back b - 0) \<noteq> None"
    "row0 \<in> set [row0]" "resolve (length [parcel0]) (row_idx_back row0 - 0) = Some 0"
    by (simp_all add: row0_def resolve_def)
  have old: "flag ([parcel0] ! 0) AND I_STOP = 0 \<and>
      real_of_int (ir_start ([parcel0] ! 0) - (- 4000000)) > (44 - 1 / 4) * 86400 \<and>
      real_of_int (ir_start ([parcel0] ! 0) - (- 4000000)) > 44 * 86400"
    by (simp add: parcel0_def)
  have young: "\<not> (flag ([parcel0] ! 0) AND I_STOP = 0 \<and>
      real_of_int (ir_start ([parcel0] ! 0) - (- 3600)) > (44 - 1 / 4) * 86400)"
    by (simp add: parcel0_def)
  from age_limit_sweep [OF pre, of 44 "- 4000000"] old
  have A: "\<exists>ps'. age_sweep 0 44 (- 4000000) [row0] [parcel0] = Inr ps' \<and>
      flag (ps' ! 0) = flag ([parcel0] ! 0) OR (I_DEAD + I_OLD) \<and>
      flag (ps' ! 0) AND I_DEAD \<noteq> 0 \<and> flag (ps' ! 0) AND I_OLD \<noteq> 0 \<and>
      src (ps' ! 0) 0 = Some \<lparr>src_x = row_x row0, src_y = row_y row0, src_p = row_p row0,
         src_t = row_t row0,
         src_age = real_of_int (ir_start ([parcel0] ! 0) - (- 4000000)) / 86400\<rparr>"
    by blast
  from age_limit_sweep [OF pre, of 44 "- 3600"] young
  obtain ps' where "age_sweep 0 44 (- 3600) [row0] [parcel0] = Inr ps'"
    and "length ps' = length [parcel0]" and "ps' ! 0 = [parcel0] ! 0"
    by blast
  then have B: "age_sweep 0 44 (- 3600) [row0] [parcel0] = Inr [parcel0]"
    by (simp add: singleton_nth)
  from A have "\<exists>ps'. age_sweep 0 44 (- 4000000) [row0] [parcel0] = Inr ps' \<and>
      flag (ps' ! 0) = 10485760 \<and> flag (ps' ! 0) AND I_DEAD \<noteq> 0 \<and> flag (ps' ! 0) AND I_OLD \<noteq> 0 \<and>
      src (ps' ! 0) 0 = Some \<lparr>src_x = 2, src_y = 1, src_p = 10000, src_t = 200,
         src_age = 4000000 / 86400\<rparr>"
    by (simp add: parcel0_def row0_def I_DEAD_def I_OLD_def)
  with B show ?thesis by blast
qed

text \<open>
  The claim as written, for every parcel with the \<open>I_DEAD\<close> bit clear, fails on
  a parcel that has been hit: the parcel of the small run after its first
  slice has \<open>I_HIT\<close> set and \<open>I_DEAD\<close> clear; with an age of 4000000 seconds,
  over 46 days, against a bound of 44 days the sweep leaves it as it is.
\<close>

theorem age_limit_sweep_counterexample:
  "flag (parcels tables1 ! 0) AND I_DEAD = 0 \<and>
   44 * 86400 < real_of_int (ir_start (parcels tables1 ! 0) - (- 4000000)) \<and>
   age_sweep 0 44 (- 4000000) [row0] (parcels tables1) = Inr (parcels tables1)"
  by (simp add: tables1_def parcel1_def parcel0_def age_sweep_def IIold_o_def row0_def
      resolve_def I_DEAD_def I_HIT_def I_STOP_def)

subsection \<open>The ages in the archive\<close>



section \<open>The time-slice generator: proofs\<close>

lemma and_then_Inr [simp]: "and_then (Inr v) f = f v"
  by (simp add: and_then_def)

lemma take_mask_masked: "length xs = length m \<Longrightarrow> take_mask xs m = Inr (masked xs m)"
  by (simp add: take_mask_def masked_def)

lemma length_masked: "length xs = length m \<Longrightarrow> length (masked xs m) = length (filter id m)"
proof (induction xs m rule: list_induct2)
  case Nil
  then show ?case by (simp add: masked_def)
next
  case (Cons x xs b m)
  then show ?case by (simp add: masked_def)
qed

lemma interp_between:
  assumes "well_shaped g"
    and "length (field (part_a g)) = length (live_a g)"
    and "length (field (part_p g)) = length (live_p g)"
  shows "interp (coefai g k) (field (part_a g)) (live_a g) (coefpi g k) (field (part_p g)) (live_p g)
     = Inr (between g k field)"
proof -
  from assms have "length (masked (field (part_a g)) (live_a g)) = length (masked (field (part_p g)) (live_p g))"
    by (simp add: length_masked well_shaped_def)
  with assms(2,3) show ?thesis
    by (simp add: interp_def take_mask_masked lin_def between_def)
qed

text \<open>One turn of the loop, in an hour with live parcels.\<close>

lemma first_slice_window:
  assumes "well_shaped g"
  shows "first_slice g (coefai g 0) (coefpi g 0)
       (dat\<lparr>w_ti := Some (current_date g + dstep g - slice_width g),
            w_tf := Some (current_date g + dstep g),
            w_itime := sn_itime (part_p g) - slice_width g mod 86400\<rparr>)
     = Inr (window_at g N 0)"
proof -
  from assms have fits:
    "length (sn_idx_back (part_a g)) = length (live_a g)"
    "length (sn_x (part_a g)) = length (live_a g)" "length (sn_y (part_a g)) = length (live_a g)"
    "length (sn_p (part_a g)) = length (live_a g)" "length (sn_t (part_a g)) = length (live_a g)"
    "length (sn_x (part_p g)) = length (live_p g)" "length (sn_y (part_p g)) = length (live_p g)"
    "length (sn_p (part_p g)) = length (live_p g)" "length (sn_t (part_p g)) = length (live_p g)"
    by (simp_all add: well_shaped_def)
  show ?thesis
    by (simp add: first_slice_def take_mask_masked fits
        interp_between [OF assms, where field = sn_x] interp_between [OF assms, where field = sn_y]
        interp_between [OF assms, where field = sn_p] interp_between [OF assms, where field = sn_t]
        window_at_def start_of_def end_of_def)
qed

lemma inner_slice_window:
  assumes "well_shaped g" and "0 < k" and "int k \<noteq> int N - 1"
  shows "inner_slice g (coefai g k) (coefpi g k)
       ((window_at g N (k - 1))\<lparr>w_ti := Some (current_date g + dstep g - (int k + 1) * slice_width g),
            w_tf := Some (current_date g + dstep g - int k * slice_width g),
            w_itime := sn_itime (part_p g) - (int k + 1) * (slice_width g mod 86400)\<rparr>)
     = Inr (window_at g N k)"
proof -
  from assms have fits:
    "length (sn_x (part_a g)) = length (live_a g)" "length (sn_y (part_a g)) = length (live_a g)"
    "length (sn_p (part_a g)) = length (live_a g)" "length (sn_t (part_a g)) = length (live_a g)"
    "length (sn_x (part_p g)) = length (live_p g)" "length (sn_y (part_p g)) = length (live_p g)"
    "length (sn_p (part_p g)) = length (live_p g)" "length (sn_t (part_p g)) = length (live_p g)"
    by (simp_all add: well_shaped_def)
  from assms(2,3) show ?thesis
    by (simp add: inner_slice_def
        interp_between [OF assms(1), where field = sn_x] interp_between [OF assms(1), where field = sn_y]
        interp_between [OF assms(1), where field = sn_p] interp_between [OF assms(1), where field = sn_t]
        fits window_at_def start_of_def [of g N k] end_of_def [of g N k])
qed

lemma last_slice_window:
  assumes "well_shaped g" and "0 < k" and "int k = int N - 1"
  shows "last_slice g
       ((window_at g N (k - 1))\<lparr>w_ti := Some (current_date g + dstep g - (int k + 1) * slice_width g),
            w_tf := Some (current_date g + dstep g - int k * slice_width g),
            w_itime := sn_itime (part_p g) - (int k + 1) * (slice_width g mod 86400)\<rparr>)
     = Inr (window_at g N k)"
proof -
  from assms have fits:
    "length (sn_x (part_p g)) = length (live_p g)" "length (sn_y (part_p g)) = length (live_p g)"
    "length (sn_p (part_p g)) = length (live_p g)" "length (sn_t (part_p g)) = length (live_p g)"
    by (simp_all add: well_shaped_def)
  from assms(2,3) show ?thesis
    by (simp add: last_slice_def take_mask_masked fits window_at_def start_of_def [of g N k]
        end_of_def [of g N k])
qed

text \<open>The loop, from the turn \<open>i\<close> on, in an hour with live parcels.\<close>

lemma slices_live:
  assumes wf: "well_shaped g" and d: "dstep g \<noteq> 0"
  shows "i + n = N \<Longrightarrow> (0 < i \<Longrightarrow> dat = window_at g N (i - 1)) \<Longrightarrow>
     slices g (int N) False n i (current_date g + dstep g - int i * slice_width g)
       (sn_itime (part_p g) - int i * (slice_width g mod 86400)) dat
     = Inr (map (window_at g N) [i ..< i + n])"
proof (induction n arbitrary: i dat)
  case 0
  show ?case by simp
next
  case (Suc n)
  define tf where "tf = current_date g + dstep g - int i * slice_width g"
  define it where "it = sn_itime (part_p g) - int i * (slice_width g mod 86400)"
  have ti: "tf - slice_width g = current_date g + dstep g - (int i + 1) * slice_width g"
    and tf': "tf = current_date g + dstep g - int i * slice_width g"
    and it': "it - slice_width g mod 86400 = sn_itime (part_p g) - (int i + 1) * (slice_width g mod 86400)"
    by (simp_all add: tf_def it_def algebra_simps)
  have ca: "real_of_int (tf - slice_width g - current_date g) / real_of_int (dstep g) = coefai g i"
    and cp: "real_of_int (current_date g + dstep g - (tf - slice_width g)) / real_of_int (dstep g)
      = coefpi g i"
    unfolding ti by (simp_all add: coefai_def coefpi_def)
  have body: "(if i = 0
       then first_slice g
              (real_of_int (tf - slice_width g - current_date g) / real_of_int (dstep g))
              (real_of_int (current_date g + dstep g - (tf - slice_width g)) / real_of_int (dstep g))
              (dat\<lparr>w_ti := Some (tf - slice_width g), w_tf := Some tf,
                   w_itime := it - slice_width g mod 86400\<rparr>)
       else if int i = int N - 1
       then last_slice g
              (dat\<lparr>w_ti := Some (tf - slice_width g), w_tf := Some tf,
                   w_itime := it - slice_width g mod 86400\<rparr>)
       else inner_slice g
              (real_of_int (tf - slice_width g - current_date g) / real_of_int (dstep g))
              (real_of_int (current_date g + dstep g - (tf - slice_width g)) / real_of_int (dstep g))
              (dat\<lparr>w_ti := Some (tf - slice_width g), w_tf := Some tf,
                   w_itime := it - slice_width g mod 86400\<rparr>))
     = Inr (window_at g N i)"
  proof (cases "i = 0")
    case True
    have "first_slice g (coefai g 0) (coefpi g 0)
        (dat\<lparr>w_ti := Some (current_date g + dstep g - slice_width g),
             w_tf := Some (current_date g + dstep g),
             w_itime := sn_itime (part_p g) - slice_width g mod 86400\<rparr>) = Inr (window_at g N 0)"
      by (rule first_slice_window [OF wf])
    with True show ?thesis
      unfolding ca cp by (simp add: tf_def it_def)
  next
    case False
    then have pos: "0 < i" by simp
    with Suc.prems(2) have dat: "dat = window_at g N (i - 1)" by simp
    show ?thesis
    proof (cases "int i = int N - 1")
      case True
      have "last_slice g
              (dat\<lparr>w_ti := Some (tf - slice_width g), w_tf := Some tf,
                   w_itime := it - slice_width g mod 86400\<rparr>) = Inr (window_at g N i)"
        unfolding ti it' unfolding tf' dat by (rule last_slice_window [OF wf pos True])
      then show ?thesis
        using False True by simp
    next
      case F2: False
      have "inner_slice g (coefai g i) (coefpi g i)
              (dat\<lparr>w_ti := Some (tf - slice_width g), w_tf := Some tf,
                   w_itime := it - slice_width g mod 86400\<rparr>) = Inr (window_at g N i)"
        unfolding ti it' unfolding tf' dat by (rule inner_slice_window [OF wf pos F2])
      then show ?thesis
        unfolding ca cp using False F2 by simp
    qed
  qed
  have "slices g (int N) False n (Suc i)
       (current_date g + dstep g - int (Suc i) * slice_width g)
       (sn_itime (part_p g) - int (Suc i) * (slice_width g mod 86400)) (window_at g N i)
     = Inr (map (window_at g N) [Suc i ..< Suc i + n])"
    using Suc.prems(1) by (intro Suc.IH) simp_all
  moreover have "current_date g + dstep g - int (Suc i) * slice_width g = tf - slice_width g"
    and "sn_itime (part_p g) - int (Suc i) * (slice_width g mod 86400) = it - slice_width g mod 86400"
    by (simp_all add: tf_def it_def algebra_simps)
  ultimately have rest: "slices g (int N) False n (Suc i) (tf - slice_width g)
       (it - slice_width g mod 86400) (window_at g N i)
     = Inr (map (window_at g N) [Suc i ..< Suc i + n])"
    by simp
  have step: "slices g (int N) False (Suc n) i tf it dat
      = Inr (window_at g N i # map (window_at g N) [Suc i ..< Suc i + n])"
    using d by (simp add: body rest)
  have upt: "[i ..< i + Suc n] = i # [Suc i ..< Suc i + n]"
    by (simp add: upt_conv_Cons)
  from step show ?case
    unfolding tf_def it_def upt by (simp only: list.map)
qed

text \<open>The loop in an hour without live parcels.\<close>

lemma slices_empty:
  assumes "dstep g \<noteq> 0"
  shows "\<exists>ws. slices g nb True n i tf itime dat = Inr ws \<and> length ws = n \<and>
     (\<forall>w \<in> set ws. w_ti w = None \<and> w_tf w = None)"
proof (induction n arbitrary: i tf itime dat)
  case 0
  show ?case by simp
next
  case (Suc n)
  define dat' where "dat' = empty_slice (dat\<lparr>w_ti := Some (tf - slice_width g), w_tf := Some tf,
      w_itime := itime - slice_width g mod 86400\<rparr>)"
  from Suc [of "Suc i" "tf - slice_width g" "itime - slice_width g mod 86400" dat']
  obtain ws where "slices g nb True n (Suc i) (tf - slice_width g)
      (itime - slice_width g mod 86400) dat' = Inr ws" "length ws = n"
    "\<forall>w \<in> set ws. w_ti w = None \<and> w_tf w = None"
    by blast
  moreover have "w_ti dat' = None \<and> w_tf dat' = None"
    by (simp add: dat'_def empty_slice_def)
  ultimately show ?case
    using assms by (simp add: dat'_def [symmetric])
qed

lemma nb_slices_exact:
  assumes "0 < w"
  shows "py_int (real_of_int (int N * w) / real_of_int w + 1 / 10000) = int N"
proof -
  from assms have "real_of_int (int N * w) / real_of_int w = real N" by simp
  moreover have "\<lfloor>real N + 1 / 10000\<rfloor> = int N" by linarith
  ultimately show ?thesis by (simp add: py_int_def)
qed

lemma coef_sum:
  assumes "dstep g \<noteq> 0"
  shows "coefai g k + coefpi g k = 1"
proof -
  have "coefai g k + coefpi g k = real_of_int (dstep g) / real_of_int (dstep g)"
    unfolding coefai_def coefpi_def add_divide_distrib [symmetric] by simp
  with assms show ?thesis by simp
qed

text \<open>The generator as a whole, when the width divides the step.\<close>

lemma get_slice_part_live:
  assumes "0 < slice_width g" and "dstep g = int N * slice_width g" and "0 < N"
    and "True \<in> set (live_a g)" and "well_shaped g"
  shows "get_slice_part g = Inr (map (window_at g N) [0 ..< N])"
proof -
  from assms(1-3) have d: "dstep g \<noteq> 0" by simp
  have nb: "py_int (real_of_int (dstep g) / real_of_int (slice_width g) + 1 / 10000) = int N"
    unfolding assms(2) by (rule nb_slices_exact [OF assms(1)])
  have "slices g (int N) False N 0 (current_date g + dstep g - int 0 * slice_width g)
       (sn_itime (part_p g) - int 0 * (slice_width g mod 86400)) dat0
     = Inr (map (window_at g N) [0 ..< 0 + N])"
    by (rule slices_live [OF assms(5) d]) simp_all
  then have "slices g (int N) False N 0 (current_date g + dstep g) (sn_itime (part_p g)) dat0
     = Inr (map (window_at g N) [0 ..< N])"
    by simp
  with assms(1,4) show ?thesis
    unfolding get_slice_part_def nb by simp
qed

lemma get_slice_part_empty:
  assumes "0 < slice_width g" and "dstep g = int N * slice_width g" and "0 < N"
    and "True \<notin> set (live_a g)"
  shows "\<exists>ws. get_slice_part g = Inr ws \<and> length ws = N \<and>
     (\<forall>w \<in> set ws. w_ti w = None \<and> w_tf w = None)"
proof -
  from assms(1-3) have d: "dstep g \<noteq> 0" by simp
  have nb: "py_int (real_of_int (dstep g) / real_of_int (slice_width g) + 1 / 10000) = int N"
    unfolding assms(2) by (rule nb_slices_exact [OF assms(1)])
  from slices_empty [OF d, of "int N" N 0 "current_date g + dstep g" "sn_itime (part_p g)" dat0]
  show ?thesis
    using assms(1,4) unfolding get_slice_part_def nb by simp
qed

text \<open>
  At the start of the last window the coefficients are 0 and 1, so that the
  interpolation of the only window of an hour gives the older snapshot too.
\<close>

lemma map2_snd: "length a = length p \<Longrightarrow> map2 (\<lambda>u v. (v::real)) a p = p"
  by (induction a p rule: list_induct2) simp_all

lemma start_of_last:
  assumes "0 < slice_width g" and "dstep g = int N * slice_width g" and "0 < N"
    and "well_shaped g"
    and "length (field (part_a g)) = length (live_a g)"
    and "length (field (part_p g)) = length (live_p g)"
  shows "start_of g N (N - 1) field = masked (field (part_p g)) (live_p g)"
proof -
  from assms(3) have k: "int (N - 1) + 1 = int N" by simp
  from assms(1-3) have d: "dstep g \<noteq> 0" by simp
  have ca: "coefai g (N - 1) = 0"
    unfolding coefai_def k by (simp add: assms(2))
  have "coefpi g (N - 1) = real_of_int (dstep g) / real_of_int (dstep g)"
    unfolding coefpi_def k by (simp add: assms(2))
  with d have cp: "coefpi g (N - 1) = 1" by simp
  from assms(4-6) have "length (masked (field (part_a g)) (live_a g))
      = length (masked (field (part_p g)) (live_p g))"
    by (simp add: length_masked well_shaped_def)
  then have "between g (N - 1) field = masked (field (part_p g)) (live_p g)"
    unfolding between_def ca cp by (simp add: map2_snd)
  then show ?thesis
    by (simp add: start_of_def)
qed

section \<open>The time-slice generator: the windows of one hour\<close>

lemma upt_two: "[0 ..< 2] = [0, 1]"
  by (simp add: numeral_2_eq_2)

lemma hour0_shaped: "well_shaped hour0"
  by (simp add: well_shaped_def hour0_def snap_a0_def snap_p0_def)

lemma hour0_windows: "get_slice_part hour0 = Inr [window_at hour0 2 0, window_at hour0 2 1]"
proof -
  have "get_slice_part hour0 = Inr (map (window_at hour0 2) [0 ..< 2])"
    by (rule get_slice_part_live [OF _ _ _ _ hour0_shaped]) (simp_all add: hour0_def)
  then show ?thesis
    unfolding upt_two by simp
qed

lemma hour0_coef: "coefai hour0 0 = 1 / 2" "coefpi hour0 0 = 1 / 2"
  by (simp_all add: coefai_def coefpi_def hour0_def)

lemma hour0_masked:
  "masked (sn_x (part_a hour0)) (live_a hour0) = [170]"
  "masked (sn_x (part_p hour0)) (live_p hour0) = [140]"
  "masked (sn_p (part_a hour0)) (live_a hour0) = [10000]"
  "masked (sn_p (part_p hour0)) (live_p hour0) = [10600]"
  by (simp_all add: masked_def hour0_def snap_a0_def snap_p0_def)

lemma hour0_between:
  "between hour0 0 sn_x = [155]" "between hour0 0 sn_p = [10300]"
  unfolding between_def hour0_coef hour0_masked by simp_all

text \<open>
  Claim C9, with the clamping of the positions. When the slice width \<open>w\<close> is
  positive and the step is \<open>N\<close> times the width, \<open>N > 0\<close>, the generator yields
  \<open>N\<close> windows. In an hour without live parcels both time bounds of every
  window are \<open>None\<close>. In an hour with live parcels, with masks that fit the
  snapshots and select as many parcels from each, the window \<open>k\<close> (from 0) is
  \<open>[ta - (k+1) w, ta - k w]\<close>, so the window that ends at \<open>ta\<close> comes first and
  the windows go back in time to \<open>tp\<close>. The end of the first window has the
  pressure and the temperature of the snapshot at \<open>ta\<close> unchanged, and its
  longitude and latitude clamped to \<open>[-10, 160]\<close> and \<open>[0, 50]\<close>; the start of
  the last window has the same from the snapshot at \<open>tp\<close>. The start of every
  window before the last is the interpolation
  \<open>coefai * (snapshot at ta) + coefpi * (snapshot at tp)\<close>, with
  \<open>coefai = (ti - tp) / dstep\<close> and \<open>coefpi = (ta - ti) / dstep\<close>, which sum to 1,
  the longitude and the latitude clamped as above; and the end of the next
  window is that start.
\<close>

theorem time_slices:
  assumes "0 < slice_width g" and "dstep g = int N * slice_width g" and "0 < N"
  shows
    "(True \<notin> set (live_a g) \<longrightarrow>
        (\<exists>ws. get_slice_part g = Inr ws \<and> length ws = N \<and>
           (\<forall>k<N. w_ti (ws ! k) = None \<and> w_tf (ws ! k) = None))) \<and>
     (True \<in> set (live_a g) \<and> well_shaped g \<longrightarrow>
        (\<exists>ws. get_slice_part g = Inr ws \<and> length ws = N \<and>
           (\<forall>k<N. w_tf (ws ! k) = Some (current_date g + dstep g - int k * slice_width g) \<and>
                  w_ti (ws ! k) = Some (current_date g + dstep g - (int k + 1) * slice_width g)) \<and>
           w_xf (ws ! 0) = clip (masked (sn_x (part_a g)) (live_a g)) (- 10) 160 \<and>
           w_yf (ws ! 0) = clip (masked (sn_y (part_a g)) (live_a g)) 0 50 \<and>
           w_pf (ws ! 0) = masked (sn_p (part_a g)) (live_a g) \<and>
           w_tempf (ws ! 0) = Some (masked (sn_t (part_a g)) (live_a g)) \<and>
           w_xi (ws ! (N - 1)) = clip (masked (sn_x (part_p g)) (live_p g)) (- 10) 160 \<and>
           w_yi (ws ! (N - 1)) = clip (masked (sn_y (part_p g)) (live_p g)) 0 50 \<and>
           w_pi (ws ! (N - 1)) = masked (sn_p (part_p g)) (live_p g) \<and>
           w_tempi (ws ! (N - 1)) = Some (masked (sn_t (part_p g)) (live_p g)) \<and>
           (\<forall>k. k + 1 < N \<longrightarrow>
              w_xi (ws ! k) = clip (between g k sn_x) (- 10) 160 \<and>
              w_yi (ws ! k) = clip (between g k sn_y) 0 50 \<and>
              w_pi (ws ! k) = between g k sn_p \<and>
              w_tempi (ws ! k) = Some (between g k sn_t) \<and>
              w_xf (ws ! (k + 1)) = w_xi (ws ! k) \<and>
              w_yf (ws ! (k + 1)) = w_yi (ws ! k) \<and>
              w_pf (ws ! (k + 1)) = w_pi (ws ! k) \<and>
              w_tempf (ws ! (k + 1)) = w_tempi (ws ! k) \<and>
              coefai g k + coefpi g k = 1)))"
proof (intro conjI impI)
  assume "True \<notin> set (live_a g)"
  from get_slice_part_empty [OF assms this]
  obtain ws where ws: "get_slice_part g = Inr ws" "length ws = N"
    and none: "\<forall>w \<in> set ws. w_ti w = None \<and> w_tf w = None"
    by blast
  from none ws(2) have "\<forall>k<N. w_ti (ws ! k) = None \<and> w_tf (ws ! k) = None"
    by simp
  with ws show "\<exists>ws. get_slice_part g = Inr ws \<and> length ws = N \<and>
      (\<forall>k<N. w_ti (ws ! k) = None \<and> w_tf (ws ! k) = None)"
    by blast
next
  assume "True \<in> set (live_a g) \<and> well_shaped g"
  then have live: "True \<in> set (live_a g)" and wf: "well_shaped g"
    by simp_all
  from assms have d: "dstep g \<noteq> 0" by simp
  define ws where "ws = map (window_at g N) [0 ..< N]"
  have nth: "ws ! k = window_at g N k" if "k < N" for k
    using that by (simp add: ws_def)
  have first: "ws ! 0 = window_at g N 0" and last: "ws ! (N - 1) = window_at g N (N - 1)"
    using assms(3) by (simp_all add: nth)
  from wf have fits:
    "length (sn_x (part_a g)) = length (live_a g)" "length (sn_y (part_a g)) = length (live_a g)"
    "length (sn_p (part_a g)) = length (live_a g)" "length (sn_t (part_a g)) = length (live_a g)"
    "length (sn_x (part_p g)) = length (live_p g)" "length (sn_y (part_p g)) = length (live_p g)"
    "length (sn_p (part_p g)) = length (live_p g)" "length (sn_t (part_p g)) = length (live_p g)"
    by (simp_all add: well_shaped_def)
  have c1: "get_slice_part g = Inr ws"
    unfolding ws_def by (rule get_slice_part_live [OF assms live wf])
  have c2: "length ws = N"
    by (simp add: ws_def)
  have c3: "\<forall>k<N. w_tf (ws ! k) = Some (current_date g + dstep g - int k * slice_width g) \<and>
      w_ti (ws ! k) = Some (current_date g + dstep g - (int k + 1) * slice_width g)"
    by (simp add: nth window_at_def)
  have f1: "w_xf (ws ! 0) = clip (masked (sn_x (part_a g)) (live_a g)) (- 10) 160"
    and f2: "w_yf (ws ! 0) = clip (masked (sn_y (part_a g)) (live_a g)) 0 50"
    and f3: "w_pf (ws ! 0) = masked (sn_p (part_a g)) (live_a g)"
    and f4: "w_tempf (ws ! 0) = Some (masked (sn_t (part_a g)) (live_a g))"
    unfolding first by (simp_all add: window_at_def end_of_def)
  have l1: "w_xi (ws ! (N - 1)) = clip (masked (sn_x (part_p g)) (live_p g)) (- 10) 160"
    and l2: "w_yi (ws ! (N - 1)) = clip (masked (sn_y (part_p g)) (live_p g)) 0 50"
    and l3: "w_pi (ws ! (N - 1)) = masked (sn_p (part_p g)) (live_p g)"
    and l4: "w_tempi (ws ! (N - 1)) = Some (masked (sn_t (part_p g)) (live_p g))"
    using start_of_last [OF assms wf fits(1,5)] start_of_last [OF assms wf fits(2,6)]
      start_of_last [OF assms wf fits(3,7)] start_of_last [OF assms wf fits(4,8)]
    unfolding last by (simp_all add: window_at_def)
  have mid: "\<forall>k. k + 1 < N \<longrightarrow>
      w_xi (ws ! k) = clip (between g k sn_x) (- 10) 160 \<and>
      w_yi (ws ! k) = clip (between g k sn_y) 0 50 \<and>
      w_pi (ws ! k) = between g k sn_p \<and>
      w_tempi (ws ! k) = Some (between g k sn_t) \<and>
      w_xf (ws ! (k + 1)) = w_xi (ws ! k) \<and>
      w_yf (ws ! (k + 1)) = w_yi (ws ! k) \<and>
      w_pf (ws ! (k + 1)) = w_pi (ws ! k) \<and>
      w_tempf (ws ! (k + 1)) = w_tempi (ws ! k) \<and>
      coefai g k + coefpi g k = 1"
  proof (intro allI impI)
    fix k
    assume k: "k + 1 < N"
    then have a: "ws ! k = window_at g N k" and b: "ws ! (k + 1) = window_at g N (k + 1)"
      by (simp_all add: nth)
    from k have "int k \<noteq> int N - 1" by simp
    then have s: "start_of g N k field = between g k field" for field
      by (simp add: start_of_def)
    have e: "end_of g N (Suc k) field = between g k field" for field
      by (simp add: end_of_def s)
    show "w_xi (ws ! k) = clip (between g k sn_x) (- 10) 160 \<and>
      w_yi (ws ! k) = clip (between g k sn_y) 0 50 \<and>
      w_pi (ws ! k) = between g k sn_p \<and>
      w_tempi (ws ! k) = Some (between g k sn_t) \<and>
      w_xf (ws ! (k + 1)) = w_xi (ws ! k) \<and>
      w_yf (ws ! (k + 1)) = w_yi (ws ! k) \<and>
      w_pf (ws ! (k + 1)) = w_pi (ws ! k) \<and>
      w_tempf (ws ! (k + 1)) = w_tempi (ws ! k) \<and>
      coefai g k + coefpi g k = 1"
      unfolding a b by (simp add: window_at_def s e coef_sum [OF d])
  qed
  show "\<exists>ws. get_slice_part g = Inr ws \<and> length ws = N \<and>
      (\<forall>k<N. w_tf (ws ! k) = Some (current_date g + dstep g - int k * slice_width g) \<and>
             w_ti (ws ! k) = Some (current_date g + dstep g - (int k + 1) * slice_width g)) \<and>
      w_xf (ws ! 0) = clip (masked (sn_x (part_a g)) (live_a g)) (- 10) 160 \<and>
      w_yf (ws ! 0) = clip (masked (sn_y (part_a g)) (live_a g)) 0 50 \<and>
      w_pf (ws ! 0) = masked (sn_p (part_a g)) (live_a g) \<and>
      w_tempf (ws ! 0) = Some (masked (sn_t (part_a g)) (live_a g)) \<and>
      w_xi (ws ! (N - 1)) = clip (masked (sn_x (part_p g)) (live_p g)) (- 10) 160 \<and>
      w_yi (ws ! (N - 1)) = clip (masked (sn_y (part_p g)) (live_p g)) 0 50 \<and>
      w_pi (ws ! (N - 1)) = masked (sn_p (part_p g)) (live_p g) \<and>
      w_tempi (ws ! (N - 1)) = Some (masked (sn_t (part_p g)) (live_p g)) \<and>
      (\<forall>k. k + 1 < N \<longrightarrow>
         w_xi (ws ! k) = clip (between g k sn_x) (- 10) 160 \<and>
         w_yi (ws ! k) = clip (between g k sn_y) 0 50 \<and>
         w_pi (ws ! k) = between g k sn_p \<and>
         w_tempi (ws ! k) = Some (between g k sn_t) \<and>
         w_xf (ws ! (k + 1)) = w_xi (ws ! k) \<and>
         w_yf (ws ! (k + 1)) = w_yi (ws ! k) \<and>
         w_pf (ws ! (k + 1)) = w_pi (ws ! k) \<and>
         w_tempf (ws ! (k + 1)) = w_tempi (ws ! k) \<and>
         coefai g k + coefpi g k = 1)"
    by (intro exI [of _ ws] conjI) (fact c1 c2 c3 f1 f2 f3 f4 l1 l2 l3 l4 mid)+
qed

text \<open>
  The hour \<open>hour0\<close> gives two windows, \<open>[3600, 7200]\<close> then \<open>[0, 3600]\<close>; the
  parcel is at the longitude 170 at \<open>ta\<close>, clamped to 160, at 155 half way
  and at 140 at \<open>tp\<close>. The hour \<open>hour1\<close>, without live parcels, gives two
  windows without time bounds.
\<close>

theorem time_slices_witness:
  "0 < slice_width hour0 \<and> dstep hour0 = int 2 * slice_width hour0 \<and>
   True \<in> set (live_a hour0) \<and> well_shaped hour0 \<and>
   (\<exists>ws. get_slice_part hour0 = Inr ws \<and> length ws = 2 \<and>
      w_tf (ws ! 0) = Some 7200 \<and> w_ti (ws ! 0) = Some 3600 \<and>
      w_tf (ws ! 1) = Some 3600 \<and> w_ti (ws ! 1) = Some 0 \<and>
      w_xf (ws ! 0) = [160] \<and> w_pf (ws ! 0) = [10000] \<and>
      w_xi (ws ! 0) = [155] \<and> w_pi (ws ! 0) = [10300] \<and>
      w_xf (ws ! 1) = [155] \<and> w_pf (ws ! 1) = [10300] \<and>
      w_xi (ws ! 1) = [140] \<and> w_pi (ws ! 1) = [10600]) \<and>
   0 < slice_width hour1 \<and> dstep hour1 = int 2 * slice_width hour1 \<and>
   True \<notin> set (live_a hour1) \<and>
   (\<exists>ws. get_slice_part hour1 = Inr ws \<and> length ws = 2 \<and>
      w_ti (ws ! 0) = None \<and> w_tf (ws ! 0) = None \<and>
      w_ti (ws ! 1) = None \<and> w_tf (ws ! 1) = None)"
proof -
  have h0: "0 < slice_width hour0" "dstep hour0 = int 2 * slice_width hour0"
    "True \<in> set (live_a hour0)" "current_date hour0 = 0" "dstep hour0 = 7200"
    "slice_width hour0 = 3600"
    by (simp_all add: hour0_def)
  have h1: "0 < slice_width hour1" "dstep hour1 = int 2 * slice_width hour1"
    "True \<notin> set (live_a hour1)"
    by (simp_all add: hour1_def hour0_def)
  have two: "(0::nat) < 2" by simp
  from time_slices [OF h0(1,2) two] h0(3) hour0_shaped
  obtain ws where ws: "get_slice_part hour0 = Inr ws" "length ws = 2"
    and t: "\<forall>k<2. w_tf (ws ! k) = Some (current_date hour0 + dstep hour0 - int k * slice_width hour0) \<and>
          w_ti (ws ! k) = Some (current_date hour0 + dstep hour0 - (int k + 1) * slice_width hour0)"
    and f: "w_xf (ws ! 0) = clip (masked (sn_x (part_a hour0)) (live_a hour0)) (- 10) 160"
      "w_pf (ws ! 0) = masked (sn_p (part_a hour0)) (live_a hour0)"
    and l: "w_xi (ws ! (2 - 1)) = clip (masked (sn_x (part_p hour0)) (live_p hour0)) (- 10) 160"
      "w_pi (ws ! (2 - 1)) = masked (sn_p (part_p hour0)) (live_p hour0)"
    and m: "\<forall>k. k + 1 < 2 \<longrightarrow>
         w_xi (ws ! k) = clip (between hour0 k sn_x) (- 10) 160 \<and>
         w_yi (ws ! k) = clip (between hour0 k sn_y) 0 50 \<and>
         w_pi (ws ! k) = between hour0 k sn_p \<and>
         w_tempi (ws ! k) = Some (between hour0 k sn_t) \<and>
         w_xf (ws ! (k + 1)) = w_xi (ws ! k) \<and>
         w_yf (ws ! (k + 1)) = w_yi (ws ! k) \<and>
         w_pf (ws ! (k + 1)) = w_pi (ws ! k) \<and>
         w_tempf (ws ! (k + 1)) = w_tempi (ws ! k) \<and>
         coefai hour0 k + coefpi hour0 k = 1"
    by blast
  from t have t0: "w_tf (ws ! 0) = Some 7200 \<and> w_ti (ws ! 0) = Some 3600"
    and t1: "w_tf (ws ! 1) = Some 3600 \<and> w_ti (ws ! 1) = Some 0"
    by (simp_all add: h0)
  from m have m0: "w_xi (ws ! 0) = [155] \<and> w_pi (ws ! 0) = [10300] \<and>
      w_xf (ws ! 1) = [155] \<and> w_pf (ws ! 1) = [10300]"
    by (simp add: hour0_between clip_def)
  from f have f0: "w_xf (ws ! 0) = [160] \<and> w_pf (ws ! 0) = [10000]"
    by (simp add: hour0_masked clip_def)
  from l have l0: "w_xi (ws ! 1) = [140] \<and> w_pi (ws ! 1) = [10600]"
    by (simp add: hour0_masked clip_def)
  have live: "\<exists>ws. get_slice_part hour0 = Inr ws \<and> length ws = 2 \<and>
      w_tf (ws ! 0) = Some 7200 \<and> w_ti (ws ! 0) = Some 3600 \<and>
      w_tf (ws ! 1) = Some 3600 \<and> w_ti (ws ! 1) = Some 0 \<and>
      w_xf (ws ! 0) = [160] \<and> w_pf (ws ! 0) = [10000] \<and>
      w_xi (ws ! 0) = [155] \<and> w_pi (ws ! 0) = [10300] \<and>
      w_xf (ws ! 1) = [155] \<and> w_pf (ws ! 1) = [10300] \<and>
      w_xi (ws ! 1) = [140] \<and> w_pi (ws ! 1) = [10600]"
    using ws t0 t1 f0 m0 l0 by blast
  from time_slices [OF h1(1,2) two] h1(3)
  obtain vs where vs: "get_slice_part hour1 = Inr vs" "length vs = 2"
    and n: "\<forall>k<2. w_ti (vs ! k) = None \<and> w_tf (vs ! k) = None"
    by blast
  from n have "w_ti (vs ! 0) = None \<and> w_tf (vs ! 0) = None \<and>
      w_ti (vs ! 1) = None \<and> w_tf (vs ! 1) = None"
    by simp
  with vs have empty: "\<exists>ws. get_slice_part hour1 = Inr ws \<and> length ws = 2 \<and>
      w_ti (ws ! 0) = None \<and> w_tf (ws ! 0) = None \<and>
      w_ti (ws ! 1) = None \<and> w_tf (ws ! 1) = None"
    by blast
  from h0(1,2,3) hour0_shaped live h1 empty show ?thesis
    by blast
qed

text \<open>
  The claim as it is written, that the end of the first window has the
  longitude of the snapshot at \<open>ta\<close>, fails in \<open>hour0\<close>: the snapshot has 170
  and the window has 160.
\<close>

theorem time_slices_counterexample:
  "map_sum id (map w_xf) (get_slice_part hour0) = Inr [[160], [155]] \<and>
   sn_x (part_a hour0) = [170] \<and> live_a hour0 = [True]"
proof -
  have "w_xf (window_at hour0 2 0) = [160]"
    by (simp add: window_at_def end_of_def hour0_masked clip_def)
  moreover have "w_xf (window_at hour0 2 1) = [155]"
    by (simp add: window_at_def end_of_def start_of_def hour0_between clip_def)
  moreover have "sn_x (part_a hour0) = [170] \<and> live_a hour0 = [True]"
    by (simp add: hour0_def snap_a0_def)
  ultimately show ?thesis
    by (simp add: hour0_windows)
qed

end
